theory Spec2Isabelle
  imports Complex_Main
begin

section \<open>Graphs\<close>

text \<open>
  The combinators of namespace \<^verbatim>\<open>gtn\<close> (declared in \<^verbatim>\<open>gtn/functions.h\<close>) build
  weighted automata through the interface of the \<^verbatim>\<open>Graph\<close> class. Node indices and
  labels are C++ \<^verbatim>\<open>int\<close>s, taken as unbounded integers; weights and gradient values
  are \<^verbatim>\<open>float\<close>s, modelled by \<open>float32\<close> below.
\<close>

subsection \<open>Weights\<close>

text \<open>
  A \<^verbatim>\<open>float\<close> is an IEEE 754 binary32 value: \<open>Finite x\<close> is the float of value \<open>x\<close>,
  and there are the two infinities and NaN. The sign of a zero and the payload of a
  NaN are not kept, and equality is identity of the value (NaN equals itself), not
  the comparison \<^verbatim>\<open>==\<close> of C++. The type has a \<open>Finite x\<close> for every real \<open>x\<close>; the
  floats among them are those that \<open>round32\<close> leaves as they are, and the theorems,
  which hold for every value of the type, hold for these. \<open>round32\<close> rounds a real to
  the nearest float, ties to the even significand: 24 significant bits, subnormals
  spaced \<open>2 powr - 149\<close> apart below \<open>2 powr - 126\<close>, and infinity once the rounded
  value reaches \<open>2 ^ 128\<close>. Negation, addition and subtraction of floats are the
  operations \<open>-\<close>, \<open>+\<close> and \<open>-\<close> of the type: negation is exact, the sum of two finite
  floats is the exact sum rounded, and subtraction adds the negation.
\<close>

datatype float32 = Finite real | PlusInf | MinusInf | NaN

definition roundHalfEven :: "real \<Rightarrow> int" where
  "roundHalfEven x =
     (let f = \<lfloor>x\<rfloor>; d = x - of_int f
      in if d < 1 / 2 then f else if 1 / 2 < d then f + 1 else if even f then f else f + 1)"

definition round32 :: "real \<Rightarrow> float32" where
  "round32 x =
     (if x = 0 then Finite 0
      else let e = max \<lfloor>log 2 \<bar>x\<bar>\<rfloor> (- 126);
               ulp = 2 powr of_int (e - 23);
               y = of_int (roundHalfEven (x / ulp)) * ulp
           in if 2 ^ 128 \<le> \<bar>y\<bar> then (if 0 < x then PlusInf else MinusInf) else Finite y)"

fun fneg :: "float32 \<Rightarrow> float32" where
  "fneg (Finite x) = Finite (- x)"
| "fneg PlusInf = MinusInf"
| "fneg MinusInf = PlusInf"
| "fneg NaN = NaN"

fun fadd :: "float32 \<Rightarrow> float32 \<Rightarrow> float32" where
  "fadd NaN b = NaN"
| "fadd a NaN = NaN"
| "fadd PlusInf MinusInf = NaN"
| "fadd MinusInf PlusInf = NaN"
| "fadd PlusInf b = PlusInf"
| "fadd a PlusInf = PlusInf"
| "fadd MinusInf b = MinusInf"
| "fadd a MinusInf = MinusInf"
| "fadd (Finite x) (Finite y) = round32 (x + y)"

instantiation float32 :: "{zero, uminus, plus, minus}"
begin

definition zero_float32 :: float32 where
  "0 = Finite 0"

definition uminus_float32 :: "float32 \<Rightarrow> float32" where
  "- a = fneg a"

definition plus_float32 :: "float32 \<Rightarrow> float32 \<Rightarrow> float32" where
  "a + b = fadd a b"

definition minus_float32 :: "float32 \<Rightarrow> float32 \<Rightarrow> float32" where
  "a - b = fadd a (fneg b)"

instance ..

end


datatype error = LogicError string | NotScalar | OutOfBounds

record node =
  nstart :: bool
  naccept :: bool

record arc =
  arc_src :: int
  arc_dst :: int
  arc_ilabel :: int
  arc_olabel :: int
  arc_weight :: float32

text \<open>
  The backward closures of the combinators capture nothing, so a recorded closure is
  a tag; \<open>runGradFunc\<close> below maps each tag to the body of its lambda.
\<close>

datatype gradFn =
  NoGradFn | NegateGrad | AddGrad | SubtractGrad | ConcatGrad | ClosureGrad | RemoveGrad

datatype graph = Graph
  (nodes: "node list")
  (arcs: "arc list")
  (calcGrad: bool)
  (grad: "float32 list option")
  (gradFunc: gradFn)
  (inputs: "graph list")
  (ilabelSorted: bool)
  (olabelSorted: bool)

text \<open>
  Modelled from the spec: the reserved sentinel label for "no symbol", a constant
  declared with the \<^verbatim>\<open>Graph\<close> class. No theorem below depends on its value.
\<close>

definition epsilon :: int where
  "epsilon = -1"

text \<open>
  Modelled from the spec: \<^verbatim>\<open>Graph(gradFunc, inputs)\<close>, the constructor of a derived
  graph. It starts without nodes and arcs, records the backward closure and retains
  the inputs. The spec does not say what the derived graph's own gradient flag is;
  here it is set when some input requests a gradient, and no theorem depends on it.
\<close>

definition mkGraph :: "gradFn \<Rightarrow> graph list \<Rightarrow> graph" where
  "mkGraph gf ins = Graph [] [] (list_ex calcGrad ins) None gf ins False False"

text \<open>
  Modelled from the spec: \<^verbatim>\<open>addNode(start = false, accept = false)\<close> appends a node
  and returns its index, \<^verbatim>\<open>addArc(src, dst, ilabel, olabel = ilabel, weight = 0)\<close>
  appends an arc, \<^verbatim>\<open>makeAccept(i)\<close> sets the accept flag of an existing node.
  Insertion order is the order of the lists.
\<close>

definition numNodes :: "graph \<Rightarrow> nat" where
  "numNodes g = length (nodes g)"

definition numArcs :: "graph \<Rightarrow> nat" where
  "numArcs g = length (arcs g)"

definition addNode :: "graph \<Rightarrow> bool \<Rightarrow> bool \<Rightarrow> graph" where
  "addNode g s a =
     Graph (nodes g @ [\<lparr>nstart = s, naccept = a\<rparr>]) (arcs g) (calcGrad g) (grad g)
       (gradFunc g) (inputs g) (ilabelSorted g) (olabelSorted g)"

definition addArc :: "graph \<Rightarrow> int \<Rightarrow> int \<Rightarrow> int \<Rightarrow> int \<Rightarrow> float32 \<Rightarrow> graph" where
  "addArc g s d il ol w =
     Graph (nodes g)
       (arcs g @ [\<lparr>arc_src = s, arc_dst = d, arc_ilabel = il, arc_olabel = ol, arc_weight = w\<rparr>])
       (calcGrad g) (grad g) (gradFunc g) (inputs g) (ilabelSorted g) (olabelSorted g)"

text \<open>The three-argument call \<^verbatim>\<open>addArc(src, dst, label)\<close>: both labels, weight 0.\<close>

definition addArc3 :: "graph \<Rightarrow> int \<Rightarrow> int \<Rightarrow> int \<Rightarrow> graph" where
  "addArc3 g s d l = addArc g s d l l 0"

text \<open>The four-argument call \<^verbatim>\<open>addArc(src, dst, ilabel, olabel)\<close>: weight 0.\<close>

definition addArc4 :: "graph \<Rightarrow> int \<Rightarrow> int \<Rightarrow> int \<Rightarrow> int \<Rightarrow> graph" where
  "addArc4 g s d il ol = addArc g s d il ol 0"

definition validNode :: "graph \<Rightarrow> int \<Rightarrow> bool" where
  "validNode g n = (0 \<le> n \<and> n < int (numNodes g))"

text \<open>
  An index outside the node vector is undefined behaviour in the source; the model
  leaves the graph as it is.
\<close>

definition makeAccept :: "graph \<Rightarrow> int \<Rightarrow> graph" where
  "makeAccept g i =
     (if validNode g i
      then Graph ((nodes g)[nat i := (nodes g ! nat i)\<lparr>naccept := True\<rparr>]) (arcs g)
             (calcGrad g) (grad g) (gradFunc g) (inputs g) (ilabelSorted g) (olabelSorted g)
      else g)"

text \<open>
  Modelled from the spec: the read accessors. A node index outside the graph is not
  a start and not an accept node (undefined behaviour in the source). \<open>start\<close> and
  \<open>accept\<close> list the start and accept nodes by increasing index; \<open>inArcs\<close> and
  \<open>outArcs\<close> list the arc indices entering and leaving a node in insertion order.
\<close>

definition isStart :: "graph \<Rightarrow> int \<Rightarrow> bool" where
  "isStart g n = (validNode g n \<and> nstart (nodes g ! nat n))"

definition isAccept :: "graph \<Rightarrow> int \<Rightarrow> bool" where
  "isAccept g n = (validNode g n \<and> naccept (nodes g ! nat n))"

definition start :: "graph \<Rightarrow> int list" where
  "start g = filter (isStart g) (map int [0..<numNodes g])"

definition accept :: "graph \<Rightarrow> int list" where
  "accept g = filter (isAccept g) (map int [0..<numNodes g])"

definition numStart :: "graph \<Rightarrow> nat" where
  "numStart g = length (start g)"

definition numAccept :: "graph \<Rightarrow> nat" where
  "numAccept g = length (accept g)"

definition srcNode :: "graph \<Rightarrow> nat \<Rightarrow> int" where
  "srcNode g a = arc_src (arcs g ! a)"

definition dstNode :: "graph \<Rightarrow> nat \<Rightarrow> int" where
  "dstNode g a = arc_dst (arcs g ! a)"

definition ilabel :: "graph \<Rightarrow> nat \<Rightarrow> int" where
  "ilabel g a = arc_ilabel (arcs g ! a)"

definition olabel :: "graph \<Rightarrow> nat \<Rightarrow> int" where
  "olabel g a = arc_olabel (arcs g ! a)"

definition weight :: "graph \<Rightarrow> nat \<Rightarrow> float32" where
  "weight g a = arc_weight (arcs g ! a)"

definition weights :: "graph \<Rightarrow> float32 list" where
  "weights g = map arc_weight (arcs g)"

definition inArcs :: "graph \<Rightarrow> int \<Rightarrow> nat list" where
  "inArcs g n = filter (\<lambda>a. dstNode g a = n) [0..<numArcs g]"

definition outArcs :: "graph \<Rightarrow> int \<Rightarrow> nat list" where
  "outArcs g n = filter (\<lambda>a. srcNode g a = n) [0..<numArcs g]"

text \<open>
  Modelled from the spec: \<^verbatim>\<open>item()\<close>, the scalar weight of a single-arc graph. A
  graph with another number of arcs has no scalar weight; the combinators call
  \<^verbatim>\<open>item()\<close> only after checking the number of arcs.
\<close>

definition item :: "graph \<Rightarrow> error + float32" where
  "item g =
     (if numArcs g = 1 then Inr (weight g 0) else Inl NotScalar)"

text \<open>
  Modelled from the spec: \<^verbatim>\<open>withoutWeights()\<close>, a structural copy with the same
  nodes and arcs, every weight zero, and no autograd chain of its own (no recorded
  closure, no retained inputs). The copy is a handle on the same graph: it answers
  \<^verbatim>\<open>calcGrad()\<close> as the original does and stands for the original's gradient
  accumulator. The closure of \<open>concat\<close> tests the flag on these copies and hands them
  the deltas, so a copy that never requested a gradient would receive none.
\<close>

definition withoutWeights :: "graph \<Rightarrow> graph" where
  "withoutWeights g =
     Graph (nodes g) (map (\<lambda>a. a\<lparr>arc_weight := 0\<rparr>) (arcs g)) (calcGrad g) (grad g)
       NoGradFn [] (ilabelSorted g) (olabelSorted g)"

text \<open>
  The invariant of the data model: every arc's endpoints are node indices of the
  graph.
\<close>

definition wf_graph :: "graph \<Rightarrow> bool" where
  "wf_graph g = list_all (\<lambda>a. validNode g (arc_src a) \<and> validNode g (arc_dst a)) (arcs g)"

section \<open>Gradient calls\<close>

text \<open>
  A backward closure receives the recorded input vector and a deltas graph and calls
  \<^verbatim>\<open>addGrad\<close> on some inputs. Its model returns these calls in order, each with the
  index of the input and the values handed over, together with the error that ended
  it, if any: the calls made before a \<^verbatim>\<open>throw\<close> have happened. The recorded inputs
  are a list of graph values; a graph recorded twice is two entries of the list.
\<close>

datatype gradCall = AddGradCall (target: nat) (gvalues: "float32 list")

type_synonym gradResult = "gradCall list \<times> error option"

text \<open>
  Modelled from the spec: \<^verbatim>\<open>addGrad(values)\<close> accumulates (sums) a per-arc
  contribution into the accumulator of a graph whose gradient was requested; the
  accumulator is allocated at the first contribution. Gradient buffers exist only
  when gradient tracking is requested, so on a graph whose \<^verbatim>\<open>calcGrad()\<close> is false the
  call changes nothing. The spec fixes the accumulator's length to the number of arcs
  and does not say what happens to a vector of another length; no theorem below
  depends on that case.
\<close>

definition addGrad :: "graph \<Rightarrow> float32 list \<Rightarrow> graph" where
  "addGrad g vs =
     (if calcGrad g
      then Graph (nodes g) (arcs g) (calcGrad g)
             (Some (case grad g of None \<Rightarrow> vs | Some acc \<Rightarrow> map2 (+) acc vs))
             (gradFunc g) (inputs g) (ilabelSorted g) (olabelSorted g)
      else g)"

fun applyCall :: "gradCall \<Rightarrow> graph list \<Rightarrow> graph list" where
  "applyCall (AddGradCall i vs) ins = (if i < length ins then ins[i := addGrad (ins ! i) vs] else ins)"

definition applyCalls :: "gradCall list \<Rightarrow> graph list \<Rightarrow> graph list" where
  "applyCalls cs ins = fold applyCall cs ins"

text \<open>
  \<^verbatim>\<open>std::vector<float>(grad, grad + n)\<close> with \<^verbatim>\<open>grad\<close> at offset \<open>off\<close> of the deltas'
  weights. Reading past the end of the weights is undefined behaviour in the source;
  the model makes it an error.
\<close>

definition slice :: "float32 list \<Rightarrow> nat \<Rightarrow> nat \<Rightarrow> error + float32 list" where
  "slice ws off n = (if off + n \<le> length ws then Inr (take n (drop off ws)) else Inl OutOfBounds)"

section \<open>Scalar combinators\<close>

definition negate :: "graph \<Rightarrow> error + graph" where
  "negate g =
     (if numArcs g \<noteq> 1 then Inl (LogicError ''[gtn::negate] input must have only one arc'')
      else case item g of
        Inl e \<Rightarrow> Inl e
      | Inr w \<Rightarrow>
          (let result = mkGraph NegateGrad [g];
               result = addNode result True False;
               result = addNode result False True
           in Inr (addArc result 0 1 0 0 (- w))))"

definition add :: "graph \<Rightarrow> graph \<Rightarrow> error + graph" where
  "add g1 g2 =
     (if numArcs g1 \<noteq> 1 \<or> numArcs g2 \<noteq> 1
      then Inl (LogicError ''[gtn::add] inputs must have only one arc'')
      else case item g1 of
        Inl e \<Rightarrow> Inl e
      | Inr w1 \<Rightarrow>
          (case item g2 of
             Inl e \<Rightarrow> Inl e
           | Inr w2 \<Rightarrow>
               (let weight = w1 + w2;
                    result = mkGraph AddGrad [g1, g2];
                    result = addNode result True False;
                    result = addNode result False True
                in Inr (addArc result 0 1 0 0 weight))))"

definition subtract :: "graph \<Rightarrow> graph \<Rightarrow> error + graph" where
  "subtract g1 g2 =
     (if numArcs g1 \<noteq> 1 \<or> numArcs g2 \<noteq> 1
      then Inl (LogicError ''[gtn::subtract] inputs must have only one arc'')
      else case item g1 of
        Inl e \<Rightarrow> Inl e
      | Inr w1 \<Rightarrow>
          (case item g2 of
             Inl e \<Rightarrow> Inl e
           | Inr w2 \<Rightarrow>
               (let weight = w1 - w2;
                    result = mkGraph SubtractGrad [g1, g2];
                    result = addNode result True False;
                    result = addNode result False True
                in Inr (addArc result 0 1 0 0 weight))))"

text \<open>
  The closures of the scalar combinators. \<^verbatim>\<open>inputs[i]\<close> on a vector that is too
  short is undefined behaviour in the source and the error \<open>OutOfBounds\<close> here.
\<close>

fun negate_gradFunc :: "graph list \<Rightarrow> graph \<Rightarrow> gradResult" where
  "negate_gradFunc (i0 # rest) deltas =
     (case negate deltas of
        Inl e \<Rightarrow> ([], Some e)
      | Inr nd \<Rightarrow> ([AddGradCall 0 (weights nd)], None))"
| "negate_gradFunc [] deltas = ([], Some OutOfBounds)"

fun add_gradFunc :: "graph list \<Rightarrow> graph \<Rightarrow> gradResult" where
  "add_gradFunc (i0 # i1 # rest) deltas =
     ([AddGradCall 0 (weights deltas), AddGradCall 1 (weights deltas)], None)"
| "add_gradFunc [i0] deltas = ([AddGradCall 0 (weights deltas)], Some OutOfBounds)"
| "add_gradFunc [] deltas = ([], Some OutOfBounds)"

fun subtract_gradFunc :: "graph list \<Rightarrow> graph \<Rightarrow> gradResult" where
  "subtract_gradFunc (i0 # i1 # rest) deltas =
     (if calcGrad i1
      then (case negate deltas of
              Inl e \<Rightarrow> ([AddGradCall 0 (weights deltas)], Some e)
            | Inr nd \<Rightarrow> ([AddGradCall 0 (weights deltas), AddGradCall 1 (weights nd)], None))
      else ([AddGradCall 0 (weights deltas)], None))"
| "subtract_gradFunc [i0] deltas = ([AddGradCall 0 (weights deltas)], Some OutOfBounds)"
| "subtract_gradFunc [] deltas = ([], Some OutOfBounds)"

section \<open>Structural combinators\<close>

subsection \<open>closure\<close>

definition closure :: "graph \<Rightarrow> graph" where
  "closure g =
     (let closed = mkGraph ClosureGrad [withoutWeights g];
          closed = addNode closed True True;
          closed = fold (\<lambda>n c. addNode c False False) [0..<numNodes g] closed;
          closed = fold (\<lambda>a c. addArc c (srcNode g a + 1) (dstNode g a + 1)
                                  (ilabel g a) (olabel g a) (weight g a))
                     [0..<numArcs g] closed;
          closed = fold (\<lambda>s c. addArc3 c 0 (s + 1) epsilon) (start g) closed;
          closed = fold (\<lambda>a c. addArc3 c (a + 1) 0 epsilon) (accept g) closed
      in closed)"

fun closure_gradFunc :: "graph list \<Rightarrow> graph \<Rightarrow> gradResult" where
  "closure_gradFunc (i0 # rest) deltas =
     (case slice (weights deltas) 0 (numArcs i0) of
        Inl e \<Rightarrow> ([], Some e)
      | Inr vs \<Rightarrow> ([AddGradCall 0 vs], None))"
| "closure_gradFunc [] deltas = ([], Some OutOfBounds)"

subsection \<open>concat\<close>

text \<open>
  \<^verbatim>\<open>concat(const std::vector<Graph>&)\<close> is \<open>concat_graphs\<close> here and the overload
  \<^verbatim>\<open>concat(g1, g2)\<close> is \<open>concat2\<close>; \<^verbatim>\<open>remove(g, label)\<close> is \<open>remove_label\<close>.
  The loop over the inputs, with its counter \<open>i\<close>, the running \<open>nodeOffset\<close> and
  the graph under construction.
\<close>

function concat_loop :: "graph list \<Rightarrow> nat \<Rightarrow> nat \<Rightarrow> graph \<Rightarrow> graph" where
  "concat_loop graphs i nodeOffset out =
     (if i < length graphs then
        (let graph = graphs ! i;
             out = fold (\<lambda>n out. addNode out
                            (i = 0 \<and> isStart graph (int n))
                            (i = length graphs - 1 \<and> isAccept graph (int n)))
                     [0..<numNodes graph] out;
             out = fold (\<lambda>a out. addArc out
                            (int nodeOffset + srcNode graph a)
                            (int nodeOffset + dstNode graph a)
                            (ilabel graph a) (olabel graph a) (weight graph a))
                     [0..<numArcs graph] out;
             out = (if i > 0 then
                      (let pGraph = graphs ! (i - 1);
                           pNodeOffset = nodeOffset - numNodes pGraph
                       in fold (\<lambda>a out.
                                  fold (\<lambda>s out. addArc3 out (a + int pNodeOffset)
                                                  (s + int nodeOffset) epsilon)
                                    (start graph) out)
                            (accept pGraph) out)
                    else out)
         in concat_loop graphs (i + 1) (nodeOffset + numNodes graph) out)
      else out)"
  by pat_completeness auto
termination
  by (relation "measure (\<lambda>(graphs, i, nodeOffset, out). length graphs - i)") auto

declare concat_loop.simps [simp del]

definition concat_graphs :: "graph list \<Rightarrow> graph" where
  "concat_graphs graphs =
     (let out = mkGraph ConcatGrad (map withoutWeights graphs)
      in if length graphs = 0 then addNode out True True
         else concat_loop graphs 0 0 out)"

definition concat2 :: "graph \<Rightarrow> graph \<Rightarrow> graph" where
  "concat2 g1 g2 = concat_graphs [g1, g2]"

text \<open>
  The closure's loop: \<open>off\<close> is the position of the pointer \<^verbatim>\<open>grad\<close> in the
  deltas' weights, \<open>calls\<close> the \<^verbatim>\<open>addGrad\<close> calls made so far.
\<close>

function concat_grad_loop ::
  "graph list \<Rightarrow> float32 list \<Rightarrow> nat \<Rightarrow> nat \<Rightarrow> gradCall list \<Rightarrow> gradResult" where
  "concat_grad_loop ins ws i off calls =
     (if i < length ins then
        (let graph = ins ! i
         in case (if calcGrad graph
                  then (case slice ws off (numArcs graph) of
                          Inl e \<Rightarrow> Inl e
                        | Inr vs \<Rightarrow> Inr (calls @ [AddGradCall i vs]))
                  else Inr calls) of
              Inl e \<Rightarrow> (calls, Some e)
            | Inr calls' \<Rightarrow>
                (let off = off + numArcs graph;
                     off = (if i > 0
                            then off + numAccept (ins ! (i - 1)) * numStart graph
                            else off)
                 in concat_grad_loop ins ws (i + 1) off calls'))
      else (calls, None))"
  by pat_completeness auto
termination
  by (relation "measure (\<lambda>(ins, ws, i, off, calls). length ins - i)") auto

declare concat_grad_loop.simps [simp del]

definition concat_gradFunc :: "graph list \<Rightarrow> graph \<Rightarrow> gradResult" where
  "concat_gradFunc ins deltas = concat_grad_loop ins (weights deltas) 0 0 []"

subsection \<open>compose and intersect\<close>

text \<open>
  The matchers and \<^verbatim>\<open>detail::compose\<close> are declared in \<^verbatim>\<open>gtn/functions/compose.h\<close>.
  A matcher is kept as the constructor call that makes it; \<^verbatim>\<open>detail::compose\<close> is
  the parameter \<open>dcompose\<close>.
\<close>

datatype matcher =
  UnsortedMatcher graph graph
  | SinglySortedMatcher graph graph bool
  | DoublySortedMatcher graph graph

definition compose :: "(graph \<Rightarrow> graph \<Rightarrow> matcher \<Rightarrow> graph) \<Rightarrow> graph \<Rightarrow> graph \<Rightarrow> graph" where
  "compose dcompose g1 g2 =
     (let g1Sorted = olabelSorted g1;
          g2Sorted = ilabelSorted g2;
          matcher = (if g1Sorted \<and> g2Sorted then DoublySortedMatcher g1 g2
                     else if g1Sorted \<or> g2Sorted then SinglySortedMatcher g1 g2 g1Sorted
                     else UnsortedMatcher g1 g2)
      in dcompose g1 g2 matcher)"

definition intersect :: "(graph \<Rightarrow> graph \<Rightarrow> matcher \<Rightarrow> graph) \<Rightarrow> graph \<Rightarrow> graph \<Rightarrow> graph" where
  "intersect dcompose g1 g2 =
     (let g1Sorted = (ilabelSorted g1 \<or> olabelSorted g1);
          g2Sorted = (ilabelSorted g2 \<or> olabelSorted g2);
          matcher = (if g1Sorted \<and> g2Sorted then DoublySortedMatcher g1 g2
                     else if g1Sorted \<or> g2Sorted then SinglySortedMatcher g1 g2 g1Sorted
                     else UnsortedMatcher g1 g2)
      in dcompose g1 g2 matcher)"

subsection \<open>remove\<close>

fun remove_gradFunc :: "graph list \<Rightarrow> graph \<Rightarrow> gradResult" where
  "remove_gradFunc ins deltas =
     ([], Some (LogicError ''[gtn::remove] gradient compuation not implemented''))"

definition label_match :: "graph \<Rightarrow> int \<Rightarrow> int \<Rightarrow> nat \<Rightarrow> bool" where
  "label_match g il ol a = (ilabel g a = il \<and> olabel g a = ol)"

text \<open>
  The first loop: the vector \<^verbatim>\<open>nodes\<close>, initially all \<open>-1\<close>, receives the index of
  the new node of every original node that is kept.
\<close>

definition remove_keep :: "graph \<Rightarrow> int \<Rightarrow> int \<Rightarrow> nat \<Rightarrow> bool" where
  "remove_keep g il ol n =
     (isStart g (int n) \<or> \<not> list_all (label_match g il ol) (inArcs g (int n)))"

definition remove_init :: "graph \<Rightarrow> int \<Rightarrow> int \<Rightarrow> int list \<times> graph" where
  "remove_init g il ol =
     fold (\<lambda>n (nodes, graph).
             if remove_keep g il ol n
             then (nodes[n := int (numNodes graph)], addNode graph (isStart g (int n)) False)
             else (nodes, graph))
       [0..<numNodes g]
       (replicate (numNodes g) (- 1), mkGraph RemoveGrad [g])"

text \<open>
  \<^verbatim>\<open>nodes[dn]\<close>; an index outside the vector is undefined behaviour in the source and
  reads as \<open>-1\<close> here.
\<close>

definition nodeAt :: "int list \<Rightarrow> int \<Rightarrow> int" where
  "nodeAt ns dn = (if 0 \<le> dn \<and> dn < int (length ns) then ns ! nat dn else - 1)"

text \<open>The body of the loop over the arcs leaving the node under exploration.\<close>

definition explore ::
  "graph \<Rightarrow> int \<Rightarrow> int \<Rightarrow> int list \<Rightarrow> int \<Rightarrow> nat
   \<Rightarrow> int list \<times> int set \<times> graph \<Rightarrow> int list \<times> int set \<times> graph" where
  "explore g il ol ns currNode a =
     (\<lambda>(toExplore, reachable, graph).
        let dn = dstNode g a
        in if label_match g il ol a
           then (if dn \<notin> reachable
                 then (toExplore @ [dn], insert dn reachable, graph)
                 else (toExplore, reachable, graph))
           else (toExplore, reachable,
                 addArc4 graph currNode (nodeAt ns dn) (ilabel g a) (olabel g a)))"

text \<open>
  The \<^verbatim>\<open>while\<close> loop over the queue \<^verbatim>\<open>toExplore\<close>. It ends because every node
  pushed is the destination of an arc of \<open>g\<close> and enters \<^verbatim>\<open>reachable\<close> once.
\<close>

definition arcDsts :: "graph \<Rightarrow> int set" where
  "arcDsts g = dstNode g ` {0..<numArcs g}"

lemma finite_arcDsts [simp]: "finite (arcDsts g)"
  by (simp add: arcDsts_def)

lemma explore_measure:
  assumes "a < numArcs g" "explore g il ol ns c a (q, r, gr) = (q', r', gr')"
  shows "length q' + card (arcDsts g - r') = length q + card (arcDsts g - r) \<and> r \<subseteq> r'"
proof (cases "label_match g il ol a \<and> dstNode g a \<notin> r")
  case True
  then have eq: "q' = q @ [dstNode g a]" "r' = insert (dstNode g a) r"
    using assms(2) by (auto simp: explore_def Let_def)
  have "dstNode g a \<in> arcDsts g - r"
    using True assms(1) by (auto simp: arcDsts_def)
  then have "card (arcDsts g - r) = Suc (card (arcDsts g - insert (dstNode g a) r))"
    by (metis Diff_insert card_Suc_Diff1 finite_Diff finite_arcDsts)
  then show ?thesis using eq by auto
next
  case False
  then have "q' = q" "r' = r"
    using assms(2) by (auto simp: explore_def Let_def split: if_splits)
  then show ?thesis by simp
qed

lemma explore_fold_measure:
  "set as \<subseteq> {0..<numArcs g} \<Longrightarrow> fold (explore g il ol ns c) as (q, r, gr) = (q', r', gr')
   \<Longrightarrow> length q' + card (arcDsts g - r') = length q + card (arcDsts g - r) \<and> r \<subseteq> r'"
proof (induction as arbitrary: q r gr)
  case Nil
  then show ?case by simp
next
  case (Cons a as)
  obtain q1 r1 gr1 where s1: "explore g il ol ns c a (q, r, gr) = (q1, r1, gr1)"
    by (metis prod_cases3)
  have a: "a < numArcs g" using Cons.prems(1) by simp
  from explore_measure[OF a s1] Cons.IH[of q1 r1 gr1] Cons.prems s1
  show ?case by auto
qed

lemma set_outArcs: "set (outArcs g n) \<subseteq> {0..<numArcs g}"
  by (auto simp: outArcs_def)

function bfs ::
  "graph \<Rightarrow> int \<Rightarrow> int \<Rightarrow> int list \<Rightarrow> int \<Rightarrow> int list \<Rightarrow> int set \<Rightarrow> graph \<Rightarrow> graph" where
  "bfs g il ol ns currNode toExplore reachable graph =
     (case toExplore of
        [] \<Rightarrow> graph
      | next # rest \<Rightarrow>
          (let graph = (if isAccept g next then makeAccept graph currNode else graph)
           in case fold (explore g il ol ns currNode) (outArcs g next) (rest, reachable, graph) of
                (toExplore', reachable', graph') \<Rightarrow>
                  bfs g il ol ns currNode toExplore' reachable' graph'))"
  by pat_completeness auto
termination
proof (relation "measure (\<lambda>(g, il, ol, ns, c, q, r, gr). length q + 2 * card (arcDsts g - r))",
    goal_cases)
  case 1
  then show ?case by simp
next
  case (2 g il ol ns c q r gr nxt rest gr1 x y z w)
  then have f: "fold (explore g il ol ns c) (outArcs g nxt) (rest, r, gr1) = (x, z, w)"
    by (metis prod.collapse prod.inject)
  note m = explore_fold_measure[OF set_outArcs f]
  have "card (arcDsts g - z) \<le> card (arcDsts g - r)"
    using m by (intro card_mono) auto
  then show ?case using m 2(1) by simp
qed

declare bfs.simps [simp del]

text \<open>
  The second loop: \<open>remove_step\<close> is its body for the node \<open>n\<close>, a search from \<open>n\<close>
  when it is kept, with \<^verbatim>\<open>reachable\<close> cleared afterwards. The queue is empty whenever
  the \<^verbatim>\<open>while\<close> loop is entered for a node that is not kept.
\<close>

definition remove_step :: "graph \<Rightarrow> int \<Rightarrow> int \<Rightarrow> int list \<Rightarrow> nat \<Rightarrow> graph \<Rightarrow> graph" where
  "remove_step g il ol ns n graph =
     (let currNode = ns ! n;
          (toExplore, reachable) = (if currNode \<ge> 0 then ([int n], {int n}) else ([], {}))
      in bfs g il ol ns currNode toExplore reachable graph)"

definition remove :: "graph \<Rightarrow> int \<Rightarrow> int \<Rightarrow> graph" where
  "remove g il ol =
     (case remove_init g il ol of
        (ns, graph) \<Rightarrow> fold (remove_step g il ol ns) [0..<numNodes g] graph)"

definition remove_label :: "graph \<Rightarrow> int \<Rightarrow> graph" where
  "remove_label g label = remove g label label"

section \<open>Backward\<close>

text \<open>The body of the closure behind each tag; a leaf graph has no closure.\<close>

fun runGradFunc :: "gradFn \<Rightarrow> graph list \<Rightarrow> graph \<Rightarrow> gradResult" where
  "runGradFunc NoGradFn ins deltas = ([], None)"
| "runGradFunc NegateGrad ins deltas = negate_gradFunc ins deltas"
| "runGradFunc AddGrad ins deltas = add_gradFunc ins deltas"
| "runGradFunc SubtractGrad ins deltas = subtract_gradFunc ins deltas"
| "runGradFunc ConcatGrad ins deltas = concat_gradFunc ins deltas"
| "runGradFunc ClosureGrad ins deltas = closure_gradFunc ins deltas"
| "runGradFunc RemoveGrad ins deltas = remove_gradFunc ins deltas"

text \<open>
  Modelled from the spec: \<^verbatim>\<open>backward(deltas)\<close> invokes the closure recorded on a graph
  once, with the recorded input list and the deltas graph. \<open>backwardCalls\<close> is the
  sequence of \<^verbatim>\<open>addGrad\<close> calls the closure makes and the error that ended it, if
  any; \<open>backward\<close> is the input list after these calls, with the same error.
\<close>

definition backwardCalls :: "graph \<Rightarrow> graph \<Rightarrow> gradResult" where
  "backwardCalls r deltas = runGradFunc (gradFunc r) (inputs r) deltas"

definition backward :: "graph \<Rightarrow> graph \<Rightarrow> graph list \<times> error option" where
  "backward r deltas =
     (case backwardCalls r deltas of (cs, e) \<Rightarrow> (applyCalls cs (inputs r), e))"

section \<open>Shapes used in the statements\<close>

text \<open>
  The node list and the arc of a scalar graph as \<open>negate\<close>, \<open>add\<close> and \<open>subtract\<close>
  build it: a start node 0, an accept node 1, one arc from 0 to 1 labelled 0/0.
\<close>

definition twoNodes :: "node list" where
  "twoNodes = [\<lparr>nstart = True, naccept = False\<rparr>, \<lparr>nstart = False, naccept = True\<rparr>]"

definition scalarArc :: "float32 \<Rightarrow> arc" where
  "scalarArc w = \<lparr>arc_src = 0, arc_dst = 1, arc_ilabel = 0, arc_olabel = 0, arc_weight = w\<rparr>"

text \<open>A leaf graph with one arc of weight \<open>w\<close>, as a caller builds it.\<close>

definition scalarGraph :: "float32 \<Rightarrow> bool \<Rightarrow> graph" where
  "scalarGraph w cg = Graph twoNodes [scalarArc w] cg None NoGradFn [] False False"


text \<open>An arc with both endpoints moved by \<open>k\<close>, and an epsilon arc of weight 0.\<close>

definition shiftArc :: "int \<Rightarrow> arc \<Rightarrow> arc" where
  "shiftArc k a = a\<lparr>arc_src := k + arc_src a, arc_dst := k + arc_dst a\<rparr>"

definition epsArc :: "int \<Rightarrow> int \<Rightarrow> arc" where
  "epsArc s d = \<lparr>arc_src = s, arc_dst = d, arc_ilabel = epsilon, arc_olabel = epsilon, arc_weight = 0\<rparr>"

text \<open>A deltas graph carrying the gradient values \<open>ws\<close>, one per arc.\<close>

definition deltasGraph :: "float32 list \<Rightarrow> graph" where
  "deltasGraph ws = Graph [] (map scalarArc ws) False None NoGradFn [] False False"

text \<open>
  The layout of \<open>concat_graphs gs\<close>, written without the loop. \<open>nodePos gs i\<close> is the
  number of nodes of the inputs before input \<open>i\<close>. \<open>concatNodes gs i\<close> are the nodes of
  input \<open>i\<close>, start only in the first input and accept only in the last.
  \<open>connectors pg g pOff off\<close> are the epsilon arcs from every accept node of \<open>pg\<close> to
  every start node of \<open>g\<close>; \<open>concatArcs gs i\<close> are the arcs of input \<open>i\<close>, moved
  by \<open>nodePos gs i\<close>, followed by the connectors from input \<open>i - 1\<close>. \<open>arcPos gs i\<close>
  is the number of arcs before the block of input \<open>i\<close>.
\<close>

definition nodePos :: "graph list \<Rightarrow> nat \<Rightarrow> nat" where
  "nodePos gs i = sum_list (map numNodes (take i gs))"

definition connectors :: "graph \<Rightarrow> graph \<Rightarrow> int \<Rightarrow> int \<Rightarrow> arc list" where
  "connectors pg g pOff off =
     List.concat (map (\<lambda>a. map (\<lambda>s. epsArc (a + pOff) (s + off)) (start g)) (accept pg))"

definition concatNodes :: "graph list \<Rightarrow> nat \<Rightarrow> node list" where
  "concatNodes gs i =
     map (\<lambda>nd. \<lparr>nstart = (i = 0 \<and> nstart nd), naccept = (i = length gs - 1 \<and> naccept nd)\<rparr>)
       (nodes (gs ! i))"

definition concatConnectors :: "graph list \<Rightarrow> nat \<Rightarrow> arc list" where
  "concatConnectors gs i =
     (if i > 0
      then connectors (gs ! (i - 1)) (gs ! i) (int (nodePos gs (i - 1))) (int (nodePos gs i))
      else [])"

definition concatArcs :: "graph list \<Rightarrow> nat \<Rightarrow> arc list" where
  "concatArcs gs i = map (shiftArc (int (nodePos gs i))) (arcs (gs ! i)) @ concatConnectors gs i"

fun arcPos :: "graph list \<Rightarrow> nat \<Rightarrow> nat" where
  "arcPos gs 0 = 0"
| "arcPos gs (Suc i) =
     arcPos gs i + numArcs (gs ! i)
       + (if i > 0 then numAccept (gs ! (i - 1)) * numStart (gs ! i) else 0)"

text \<open>
  For \<open>remove\<close>: the number of kept nodes before \<open>n\<close>, which is the index \<open>n\<close> gets
  when it is kept, and the nodes of the result as the first loop creates them.
\<close>

definition keptBefore :: "graph \<Rightarrow> int \<Rightarrow> int \<Rightarrow> nat \<Rightarrow> nat" where
  "keptBefore g il ol n = length (filter (remove_keep g il ol) [0..<n])"

definition keptNodes :: "graph \<Rightarrow> int \<Rightarrow> int \<Rightarrow> nat \<Rightarrow> node list" where
  "keptNodes g il ol k =
     map (\<lambda>n. \<lparr>nstart = isStart g (int n), naccept = False\<rparr>) (filter (remove_keep g il ol) [0..<k])"

text \<open>
  An example for \<open>remove\<close>: a start node, an arc labelled 1/1 of weight 5, an epsilon
  arc of weight 7 into the accept node.
\<close>

definition chainGraph :: graph where
  "chainGraph =
     Graph [\<lparr>nstart = True, naccept = False\<rparr>, \<lparr>nstart = False, naccept = False\<rparr>,
            \<lparr>nstart = False, naccept = True\<rparr>]
       [\<lparr>arc_src = 0, arc_dst = 1, arc_ilabel = 1, arc_olabel = 1, arc_weight = Finite 5\<rparr>,
        \<lparr>arc_src = 1, arc_dst = 2, arc_ilabel = epsilon, arc_olabel = epsilon, arc_weight = Finite 7\<rparr>]
       True None NoGradFn [] False False"

text \<open>
  The arcs of \<open>g\<close> labelled \<open>il\<close>/\<open>ol\<close>, as a relation on nodes, and the vector
  \<^verbatim>\<open>nodes\<close> of \<open>remove\<close> after its first loop.
\<close>

definition matchEdges :: "graph \<Rightarrow> int \<Rightarrow> int \<Rightarrow> (int \<times> int) set" where
  "matchEdges g il ol =
     {(srcNode g a, dstNode g a) | a. a < numArcs g \<and> label_match g il ol a}"

definition remove_nodes :: "graph \<Rightarrow> int \<Rightarrow> int \<Rightarrow> int list" where
  "remove_nodes g il ol = fst (remove_init g il ol)"

text \<open>All arcs of a graph with \<open>k\<close> nodes have their endpoints among these nodes.\<close>

definition arcsWithin :: "nat \<Rightarrow> graph \<Rightarrow> bool" where
  "arcsWithin k gr =
     (numNodes gr = k
      \<and> list_all (\<lambda>a. 0 \<le> arc_src a \<and> arc_src a < int k \<and> 0 \<le> arc_dst a \<and> arc_dst a < int k)
          (arcs gr))"

section \<open>Basic facts about the primitives\<close>

lemma fneg_fneg [simp]: "fneg (fneg a) = a"
  by (cases a) simp_all

lemma uminus_uminus_float32 [simp]: "- (- a) = (a::float32)"
  by (simp add: uminus_float32_def)

lemma roundHalfEven_int [simp]: "roundHalfEven (of_int n) = n"
  by (simp add: roundHalfEven_def)

lemma round32_eq:
  assumes "x \<noteq> 0" "max \<lfloor>log 2 \<bar>x\<bar>\<rfloor> (- 126) = e" "2 powr (of_int e - 23) = u"
    "of_int (roundHalfEven (x / u)) * u = y" "\<bar>y\<bar> < 2 ^ 128"
  shows "round32 x = Finite y"
  using assms by (simp add: round32_def Let_def)

lemma round32_int:
  assumes "\<bar>n\<bar> < 2 ^ 24"
  shows "round32 (of_int n) = Finite (of_int n)"
proof (cases "n = 0")
  case True
  then show ?thesis by (simp add: round32_def)
next
  case False
  define x :: real where "x = of_int n"
  have x1: "1 \<le> \<bar>x\<bar>" using False by (simp add: x_def)
  have x2: "\<bar>x\<bar> < 2 ^ 24" using assms unfolding x_def
    by (metis of_int_abs of_int_less_numeral_power_cancel_iff)
  define e where "e = \<lfloor>log 2 \<bar>x\<bar>\<rfloor>"
  have e0: "0 \<le> e" using x1 by (simp add: e_def)
  have "log 2 \<bar>x\<bar> < 24"
    using x1 x2 by (simp add: log_less_iff powr_realpow[symmetric])
  then have e23: "e \<le> 23" unfolding e_def by linarith
  define k where "k = nat (23 - e)"
  have ulp: "(2::real) powr (of_int e - 23) = 1 / 2 ^ k"
  proof -
    have "(of_int e - 23 :: real) = - real k" using e23 by (simp add: k_def)
    then have "(2::real) powr (of_int e - 23) = 2 powr (- real k)" by simp
    then show ?thesis by (simp add: powr_minus powr_realpow divide_inverse)
  qed
  have q: "x / (1 / 2 ^ k) = of_int (n * 2 ^ k)"
    by (simp add: x_def)
  have y: "of_int (roundHalfEven (x / (1 / 2 ^ k))) * (1 / 2 ^ k) = x"
    unfolding q roundHalfEven_int by (simp add: x_def)
  have big: "\<bar>x\<bar> < 2 ^ 128"
  proof -
    have "(2::real) ^ 24 \<le> 2 ^ 128" by simp
    then show ?thesis using x2 by linarith
  qed
  have m: "max \<lfloor>log 2 \<bar>x\<bar>\<rfloor> (- 126) = e" using e0 by (simp add: e_def)
  have x0: "x \<noteq> 0" using x1 by auto
  show ?thesis
    using round32_eq[OF x0 m ulp y big] by (simp add: x_def)
qed

lemma round32_numeral [simp]:
  "\<bar>numeral n :: int\<bar> < 2 ^ 24 \<Longrightarrow> round32 (numeral n) = Finite (numeral n)"
  "\<bar>numeral n :: int\<bar> < 2 ^ 24 \<Longrightarrow> round32 (- numeral n) = Finite (- numeral n)"
  "round32 1 = Finite 1" "round32 (- 1) = Finite (- 1)"
  using round32_int[of "numeral n"] round32_int[of "- numeral n"] round32_int[of 1] round32_int[of "-1"]
  by simp_all

lemma float32_arith [simp]:
  "- Finite x = Finite (- x)"
  "Finite x + Finite y = round32 (x + y)"
  "Finite x - Finite y = round32 (x - y)"
  by (simp_all add: uminus_float32_def plus_float32_def minus_float32_def)

lemma float32_inf_minus_inf: "PlusInf - PlusInf = NaN"
  by (simp add: minus_float32_def)

lemma round32_16777217: "round32 16777217 = Finite 16777216"
proof -
  have l: "\<lfloor>log 2 (16777217::real)\<rfloor> = 24"
  proof -
    have "(2::real) powr 24 \<le> 16777217 \<and> (16777217::real) < 2 powr (24 + 1)"
      by (simp add: powr_realpow[of 2 24, simplified] powr_realpow[of 2 25, simplified])
    then show ?thesis
      by (simp add: floor_log_eq_powr_iff[of 16777217 2 24])
  qed
  have r: "roundHalfEven (16777217 / 2) = 8388608"
  proof -
    have "\<lfloor>(16777217::real) / 2\<rfloor> = 8388608" by linarith
    then show ?thesis by (simp add: roundHalfEven_def Let_def)
  qed
  show ?thesis
    by (simp add: round32_def Let_def l r)
qed

lemma round32_16777219: "round32 16777219 = Finite 16777220"
proof -
  have l: "\<lfloor>log 2 (16777219::real)\<rfloor> = 24"
  proof -
    have "(2::real) powr 24 \<le> 16777219 \<and> (16777219::real) < 2 powr (24 + 1)"
      by (simp add: powr_realpow[of 2 24, simplified] powr_realpow[of 2 25, simplified])
    then show ?thesis
      by (simp add: floor_log_eq_powr_iff[of 16777219 2 24])
  qed
  have r: "roundHalfEven (16777219 / 2) = 8388610"
  proof -
    have "\<lfloor>(16777219::real) / 2\<rfloor> = 8388609" by linarith
    then show ?thesis by (simp add: roundHalfEven_def Let_def)
  qed
  show ?thesis
    by (simp add: round32_def Let_def l r)
qed

lemma mkGraph_sel [simp]:
  "nodes (mkGraph gf ins) = []"
  "arcs (mkGraph gf ins) = []"
  "gradFunc (mkGraph gf ins) = gf"
  "inputs (mkGraph gf ins) = ins"
  by (simp_all add: mkGraph_def)

lemma addNode_sel [simp]:
  "nodes (addNode g s a) = nodes g @ [\<lparr>nstart = s, naccept = a\<rparr>]"
  "arcs (addNode g s a) = arcs g"
  "gradFunc (addNode g s a) = gradFunc g"
  "inputs (addNode g s a) = inputs g"
  by (simp_all add: addNode_def)

lemma addArc_sel [simp]:
  "nodes (addArc g s d il ol w) = nodes g"
  "arcs (addArc g s d il ol w) =
     arcs g @ [\<lparr>arc_src = s, arc_dst = d, arc_ilabel = il, arc_olabel = ol, arc_weight = w\<rparr>]"
  "gradFunc (addArc g s d il ol w) = gradFunc g"
  "inputs (addArc g s d il ol w) = inputs g"
  by (simp_all add: addArc_def)

lemma item_single: "numArcs g = 1 \<Longrightarrow> item g = Inr (arc_weight (hd (arcs g)))"
  by (cases "arcs g") (simp_all add: item_def weight_def numArcs_def)

lemma addArc3_sel [simp]:
  "nodes (addArc3 g s d l) = nodes g"
  "arcs (addArc3 g s d l) = arcs g @ [\<lparr>arc_src = s, arc_dst = d, arc_ilabel = l, arc_olabel = l, arc_weight = 0\<rparr>]"
  "gradFunc (addArc3 g s d l) = gradFunc g"
  "inputs (addArc3 g s d l) = inputs g"
  by (simp_all add: addArc3_def)

lemma fold_addNode:
  "nodes (fold (\<lambda>n c. addNode c (f n) (h n)) xs c) = nodes c @ map (\<lambda>n. \<lparr>nstart = f n, naccept = h n\<rparr>) xs"
  "arcs (fold (\<lambda>n c. addNode c (f n) (h n)) xs c) = arcs c"
  "gradFunc (fold (\<lambda>n c. addNode c (f n) (h n)) xs c) = gradFunc c"
  "inputs (fold (\<lambda>n c. addNode c (f n) (h n)) xs c) = inputs c"
  by (induction xs arbitrary: c) simp_all

lemma fold_addArc:
  "nodes (fold (\<lambda>a c. addArc c (s a) (d a) (i a) (ol a) (w a)) xs c) = nodes c"
  "arcs (fold (\<lambda>a c. addArc c (s a) (d a) (i a) (ol a) (w a)) xs c) =
     arcs c @ map (\<lambda>a. \<lparr>arc_src = s a, arc_dst = d a, arc_ilabel = i a, arc_olabel = ol a, arc_weight = w a\<rparr>) xs"
  "gradFunc (fold (\<lambda>a c. addArc c (s a) (d a) (i a) (ol a) (w a)) xs c) = gradFunc c"
  "inputs (fold (\<lambda>a c. addArc c (s a) (d a) (i a) (ol a) (w a)) xs c) = inputs c"
  by (induction xs arbitrary: c) simp_all

lemma fold_addArc3:
  "nodes (fold (\<lambda>a c. addArc3 c (s a) (d a) l) xs c) = nodes c"
  "arcs (fold (\<lambda>a c. addArc3 c (s a) (d a) l) xs c) =
     arcs c @ map (\<lambda>a. \<lparr>arc_src = s a, arc_dst = d a, arc_ilabel = l, arc_olabel = l, arc_weight = 0\<rparr>) xs"
  "gradFunc (fold (\<lambda>a c. addArc3 c (s a) (d a) l) xs c) = gradFunc c"
  "inputs (fold (\<lambda>a c. addArc3 c (s a) (d a) l) xs c) = inputs c"
  by (induction xs arbitrary: c) simp_all

lemma map_arcs_index:
  "map (\<lambda>a. \<lparr>arc_src = k + srcNode g a, arc_dst = k + dstNode g a, arc_ilabel = ilabel g a,
              arc_olabel = olabel g a, arc_weight = weight g a\<rparr>) [0..<numArcs g]
   = map (shiftArc k) (arcs g)"
  by (rule nth_equalityI)
    (simp_all add: numArcs_def shiftArc_def srcNode_def dstNode_def ilabel_def olabel_def weight_def)

lemma closure_nodes:
  "nodes (closure g) =
     \<lparr>nstart = True, naccept = True\<rparr> # replicate (numNodes g) \<lparr>nstart = False, naccept = False\<rparr>"
  by (simp add: closure_def Let_def fold_addNode fold_addArc fold_addArc3 map_replicate_const)

lemma closure_arcs:
  "arcs (closure g) =
     map (shiftArc 1) (arcs g) @ map (\<lambda>s. epsArc 0 (s + 1)) (start g)
       @ map (\<lambda>a. epsArc (a + 1) 0) (accept g)"
  using map_arcs_index[of 1 g]
  by (simp add: closure_def Let_def fold_addNode fold_addArc fold_addArc3 epsArc_def add.commute)

lemma closure_recorded:
  "gradFunc (closure g) = ClosureGrad" "inputs (closure g) = [withoutWeights g]"
  by (simp_all add: closure_def Let_def fold_addNode fold_addArc fold_addArc3)

lemma withoutWeights_shape [simp]:
  "nodes (withoutWeights g) = nodes g"
  "numNodes (withoutWeights g) = numNodes g"
  "numArcs (withoutWeights g) = numArcs g"
  "calcGrad (withoutWeights g) = calcGrad g"
  by (simp_all add: withoutWeights_def numNodes_def numArcs_def)

lemma weights_length [simp]: "length (weights g) = numArcs g"
  by (simp add: weights_def numArcs_def)

lemma scalarGraph_facts:
  "numNodes (scalarGraph w cg) = 2" "numArcs (scalarGraph w cg) = 1"
  "nodes (scalarGraph w cg) = twoNodes"
  "arcs (scalarGraph w cg) = [scalarArc w]"
  "start (scalarGraph w cg) = [0]" "accept (scalarGraph w cg) = [1]"
  "numStart (scalarGraph w cg) = 1" "numAccept (scalarGraph w cg) = 1"
  "calcGrad (scalarGraph w cg) = cg"
  by (simp_all add: numStart_def numAccept_def start_def accept_def isStart_def isAccept_def
      validNode_def numNodes_def numArcs_def scalarGraph_def twoNodes_def)

lemma deltasGraph_facts:
  "numArcs (deltasGraph ws) = length ws" "weights (deltasGraph ws) = ws"
  by (simp_all add: deltasGraph_def numArcs_def weights_def scalarArc_def comp_def)

section \<open>Claims about the scalar combinators\<close>

text \<open>
  C6: \<open>negate\<close> fails exactly when its input does not have exactly one arc, \<open>add\<close>
  and \<open>subtract\<close> fail exactly when one of the inputs does not have exactly one arc.
  A failing call returns the error and no graph. A successful call returns a graph
  with two nodes (a start node and an accept node) and one arc from node 0 to node 1
  whose weight is the float negation, sum, difference of the input weights: \<open>-\<close>, \<open>+\<close>
  and \<open>-\<close> below are the operations of \<open>float32\<close>, so the sum of two finite weights is
  the exact sum rounded to a float, and an infinity minus itself is NaN.
\<close>

theorem scalar_ops_precondition:
  "((\<exists>e. negate g = Inl e) \<longleftrightarrow> numArcs g \<noteq> 1)
   \<and> ((\<exists>e. add g1 g2 = Inl e) \<longleftrightarrow> (numArcs g1 \<noteq> 1 \<or> numArcs g2 \<noteq> 1))
   \<and> ((\<exists>e. subtract g1 g2 = Inl e) \<longleftrightarrow> (numArcs g1 \<noteq> 1 \<or> numArcs g2 \<noteq> 1))
   \<and> (numArcs g = 1 \<longrightarrow>
        (\<exists>r w. item g = Inr w \<and> negate g = Inr r \<and> nodes r = twoNodes
           \<and> arcs r = [scalarArc (- w)]))
   \<and> (numArcs g1 = 1 \<and> numArcs g2 = 1 \<longrightarrow>
        (\<exists>r w1 w2. item g1 = Inr w1 \<and> item g2 = Inr w2 \<and> add g1 g2 = Inr r
           \<and> nodes r = twoNodes \<and> arcs r = [scalarArc (w1 + w2)]))
   \<and> (numArcs g1 = 1 \<and> numArcs g2 = 1 \<longrightarrow>
        (\<exists>r w1 w2. item g1 = Inr w1 \<and> item g2 = Inr w2 \<and> subtract g1 g2 = Inr r
           \<and> nodes r = twoNodes \<and> arcs r = [scalarArc (w1 - w2)]))"
  by (auto simp: negate_def add_def subtract_def item_def twoNodes_def scalarArc_def Let_def)

theorem scalar_ops_precondition_witness:
  "numArcs (scalarGraph (Finite 2) True) = 1 \<and> numArcs (scalarGraph (Finite 3) False) = 1
   \<and> (\<exists>r. negate (scalarGraph (Finite 2) True) = Inr r \<and> nodes r = twoNodes \<and> arcs r = [scalarArc (Finite (- 2))])
   \<and> (\<exists>r. add (scalarGraph (Finite 2) True) (scalarGraph (Finite 3) False) = Inr r \<and> nodes r = twoNodes
          \<and> arcs r = [scalarArc (Finite 5)])
   \<and> (\<exists>r. subtract (scalarGraph (Finite 2) True) (scalarGraph (Finite 3) False) = Inr r \<and> nodes r = twoNodes
          \<and> arcs r = [scalarArc (Finite (- 1))])
   \<and> (\<exists>r. add (scalarGraph (Finite 16777216) True) (scalarGraph (Finite 1) True) = Inr r
          \<and> arcs r = [scalarArc (Finite 16777216)])
   \<and> (\<exists>r. add (scalarGraph (Finite 16777216) True) (scalarGraph (Finite 3) True) = Inr r
          \<and> arcs r = [scalarArc (Finite 16777220)])
   \<and> (\<exists>r. subtract (scalarGraph PlusInf True) (scalarGraph PlusInf True) = Inr r
          \<and> arcs r = [scalarArc NaN])
   \<and> (\<exists>e. negate (mkGraph NoGradFn []) = Inl e)
   \<and> (\<exists>e. add (scalarGraph (Finite 2) True) (mkGraph NoGradFn []) = Inl e)
   \<and> (\<exists>e. subtract (mkGraph NoGradFn []) (scalarGraph (Finite 2) True) = Inl e)"
proof -
  have n: "numArcs (scalarGraph w cg) = 1" for w cg
    by (simp add: scalarGraph_facts)
  have i: "item (scalarGraph w cg) = Inr w" for w cg
    by (simp add: item_single n scalarGraph_facts scalarArc_def)
  have e: "numArcs (mkGraph NoGradFn []) \<noteq> 1"
    by (simp add: numArcs_def)
  have a: "\<exists>r. negate (scalarGraph (Finite 2) True) = Inr r \<and> nodes r = twoNodes
             \<and> arcs r = [scalarArc (Finite (- 2))]"
    "\<exists>r. add (scalarGraph (Finite 2) True) (scalarGraph (Finite 3) False) = Inr r \<and> nodes r = twoNodes
          \<and> arcs r = [scalarArc (Finite 5)]"
    "\<exists>r. subtract (scalarGraph (Finite 2) True) (scalarGraph (Finite 3) False) = Inr r \<and> nodes r = twoNodes
          \<and> arcs r = [scalarArc (Finite (- 1))]"
    using scalar_ops_precondition[of "scalarGraph (Finite 2) True" "scalarGraph (Finite 2) True"
        "scalarGraph (Finite 3) False"]
    by (simp_all add: n i)
  have b: "\<exists>r. add (scalarGraph (Finite 16777216) True) (scalarGraph (Finite 1) True) = Inr r
          \<and> arcs r = [scalarArc (Finite 16777216)]"
    using scalar_ops_precondition[of "scalarGraph (Finite 2) True" "scalarGraph (Finite 16777216) True"
        "scalarGraph (Finite 1) True"]
    by (auto simp: n i round32_16777217)
  have c: "\<exists>r. add (scalarGraph (Finite 16777216) True) (scalarGraph (Finite 3) True) = Inr r
          \<and> arcs r = [scalarArc (Finite 16777220)]"
    using scalar_ops_precondition[of "scalarGraph (Finite 2) True" "scalarGraph (Finite 16777216) True"
        "scalarGraph (Finite 3) True"]
    by (auto simp: n i round32_16777219)
  have d: "\<exists>r. subtract (scalarGraph PlusInf True) (scalarGraph PlusInf True) = Inr r
          \<and> arcs r = [scalarArc NaN]"
    using scalar_ops_precondition[of "scalarGraph (Finite 2) True" "scalarGraph PlusInf True"
        "scalarGraph PlusInf True"]
    by (auto simp: n i float32_inf_minus_inf)
  have f: "\<exists>e. negate (mkGraph NoGradFn []) = Inl e"
    "\<exists>e. add (scalarGraph (Finite 2) True) (mkGraph NoGradFn []) = Inl e"
    "\<exists>e. subtract (mkGraph NoGradFn []) (scalarGraph (Finite 2) True) = Inl e"
    using scalar_ops_precondition[of "mkGraph NoGradFn []" "scalarGraph (Finite 2) True" "mkGraph NoGradFn []"]
      scalar_ops_precondition[of "mkGraph NoGradFn []" "mkGraph NoGradFn []" "scalarGraph (Finite 2) True"]
      e
    by simp_all
  show ?thesis using a b c d f n by simp
qed

text \<open>
  C9: for a graph \<open>g\<close> with exactly one arc, \<open>negate (negate g)\<close> is defined, and
  its single arc carries the scalar weight of \<open>g\<close>: float negation does not round, so
  the same float comes back.
\<close>

theorem double_negation:
  "numArcs g = 1 \<Longrightarrow>
     \<exists>w r1 r2. item g = Inr w \<and> negate g = Inr r1 \<and> negate r1 = Inr r2
       \<and> numArcs r2 = 1 \<and> item r2 = Inr w \<and> arcs r2 = [scalarArc w]"
  by (simp add: negate_def item_def numArcs_def weight_def scalarArc_def Let_def)

theorem double_negation_witness:
  "numArcs (scalarGraph (Finite (7 / 2)) True) = 1
   \<and> (\<exists>r1 r2. negate (scalarGraph (Finite (7 / 2)) True) = Inr r1 \<and> negate r1 = Inr r2
         \<and> item r2 = Inr (Finite (7 / 2)))"
proof -
  have h: "numArcs (scalarGraph (Finite (7 / 2)) True) = 1"
    by (simp add: scalarGraph_def numArcs_def)
  have i: "item (scalarGraph (Finite (7 / 2)) True) = Inr (Finite (7 / 2))"
    by (simp add: scalarGraph_def item_def numArcs_def weight_def scalarArc_def)
  from double_negation[OF h] i h show ?thesis by auto
qed

section \<open>Claims about compose and intersect\<close>

text \<open>
  C8: \<open>compose\<close> hands \<^verbatim>\<open>detail::compose\<close> one matcher, chosen from two flags only,
  whether \<open>g1\<close> is sorted by output label and whether \<open>g2\<close> is sorted by input label:
  the doubly-sorted matcher when both hold, the singly-sorted matcher (told whether
  \<open>g1\<close> is the sorted side) when exactly one holds, the unsorted matcher when none
  holds. \<open>intersect\<close> makes the same choice from "sorted by input or by output label"
  of each graph.
\<close>

theorem matcher_selection:
  "compose dc g1 g2 =
     dc g1 g2
       (if olabelSorted g1 \<and> ilabelSorted g2 then DoublySortedMatcher g1 g2
        else if olabelSorted g1 \<noteq> ilabelSorted g2
             then SinglySortedMatcher g1 g2 (olabelSorted g1)
             else UnsortedMatcher g1 g2)
   \<and> intersect dc g1 g2 =
     dc g1 g2
       (if (ilabelSorted g1 \<or> olabelSorted g1) \<and> (ilabelSorted g2 \<or> olabelSorted g2)
        then DoublySortedMatcher g1 g2
        else if (ilabelSorted g1 \<or> olabelSorted g1) \<noteq> (ilabelSorted g2 \<or> olabelSorted g2)
             then SinglySortedMatcher g1 g2 (ilabelSorted g1 \<or> olabelSorted g1)
             else UnsortedMatcher g1 g2)"
  by (auto simp: compose_def intersect_def Let_def)

section \<open>Claims about closure\<close>

text \<open>
  C5: \<open>closure g\<close> has one new node 0 that is start and accept, followed by one
  node, neither start nor accept, for every node of \<open>g\<close> (node \<open>n\<close> becomes \<open>n + 1\<close>).
  Its arcs are the arcs of \<open>g\<close> in their order with both endpoints moved by 1 and
  labels and weights kept, then an epsilon arc from 0 to \<open>s + 1\<close> for every start node
  \<open>s\<close> of \<open>g\<close>, then an epsilon arc from \<open>a + 1\<close> to 0 for every accept node \<open>a\<close>.
  The recorded closure, given a deltas graph with one value per arc of the result,
  calls \<^verbatim>\<open>addGrad\<close> once, on the input, with the first \<open>numArcs g\<close> values.
\<close>

theorem closure_shape:
  "nodes (closure g) =
     \<lparr>nstart = True, naccept = True\<rparr> # replicate (numNodes g) \<lparr>nstart = False, naccept = False\<rparr>
   \<and> arcs (closure g) =
       map (shiftArc 1) (arcs g) @ map (\<lambda>s. epsArc 0 (s + 1)) (start g)
         @ map (\<lambda>a. epsArc (a + 1) 0) (accept g)
   \<and> gradFunc (closure g) = ClosureGrad \<and> inputs (closure g) = [withoutWeights g]
   \<and> (numArcs deltas = numArcs (closure g) \<longrightarrow>
        backwardCalls (closure g) deltas
          = ([AddGradCall 0 (take (numArcs g) (weights deltas))], None))"
proof -
  have "numArcs (closure g) = numArcs g + numStart g + numAccept g"
    by (simp add: numArcs_def closure_arcs numStart_def numAccept_def)
  then have "numArcs deltas = numArcs (closure g) \<longrightarrow>
        backwardCalls (closure g) deltas
          = ([AddGradCall 0 (take (numArcs g) (weights deltas))], None)"
    by (simp add: backwardCalls_def closure_recorded slice_def)
  then show ?thesis
    using closure_nodes closure_arcs closure_recorded by blast
qed

theorem closure_shape_witness:
  "numArcs (deltasGraph [Finite 10, Finite 20, Finite 30]) = numArcs (closure (scalarGraph (Finite 2) True))
   \<and> nodes (closure (scalarGraph (Finite 2) True)) =
       [\<lparr>nstart = True, naccept = True\<rparr>, \<lparr>nstart = False, naccept = False\<rparr>,
        \<lparr>nstart = False, naccept = False\<rparr>]
   \<and> arcs (closure (scalarGraph (Finite 2) True)) =
       [\<lparr>arc_src = 1, arc_dst = 2, arc_ilabel = 0, arc_olabel = 0, arc_weight = Finite 2\<rparr>,
        epsArc 0 1, epsArc 2 0]
   \<and> backwardCalls (closure (scalarGraph (Finite 2) True)) (deltasGraph [Finite 10, Finite 20, Finite 30])
       = ([AddGradCall 0 [Finite 10]], None)"
proof -
  have s: "start (scalarGraph (Finite 2) True) = [0]" "accept (scalarGraph (Finite 2) True) = [1]"
    by (simp_all add: start_def accept_def isStart_def isAccept_def validNode_def numNodes_def
        scalarGraph_def twoNodes_def)
  have n: "numNodes (scalarGraph (Finite 2) True) = 2" "numArcs (scalarGraph (Finite 2) True) = 1"
     "arcs (scalarGraph (Finite 2) True) = [scalarArc (Finite 2)]"
    by (simp_all add: numNodes_def numArcs_def scalarGraph_def twoNodes_def)
  have d: "numArcs (deltasGraph [Finite 10, Finite 20, Finite 30]) = 3" "weights (deltasGraph [Finite 10, Finite 20, Finite 30]) = [Finite 10, Finite 20, Finite 30]"
    by (simp_all add: deltasGraph_def numArcs_def weights_def scalarArc_def)
  note c = closure_shape[of "scalarGraph (Finite 2) True" "deltasGraph [Finite 10, Finite 20, Finite 30]"]
  have a: "arcs (closure (scalarGraph (Finite 2) True)) =
       [\<lparr>arc_src = 1, arc_dst = 2, arc_ilabel = 0, arc_olabel = 0, arc_weight = Finite 2\<rparr>,
        epsArc 0 1, epsArc 2 0]"
    using c by (simp add: s n shiftArc_def scalarArc_def)
  have l: "numArcs (deltasGraph [Finite 10, Finite 20, Finite 30]) = numArcs (closure (scalarGraph (Finite 2) True))"
    by (simp add: d) (simp add: numArcs_def a)
  show ?thesis
    using c l a by (simp add: n d eval_nat_numeral)
qed

section \<open>Facts about concat\<close>

lemma nodePos_Suc: "i < length gs \<Longrightarrow> nodePos gs (Suc i) = nodePos gs i + numNodes (gs ! i)"
  by (simp add: nodePos_def take_Suc_conv_app_nth)

lemma fold_connectors:
  "arcs (fold (\<lambda>a out. fold (\<lambda>s out. addArc3 out (a + p) (s + off) epsilon) ss out) acs out)
     = arcs out @ List.concat (map (\<lambda>a. map (\<lambda>s. epsArc (a + p) (s + off)) ss) acs)"
  "nodes (fold (\<lambda>a out. fold (\<lambda>s out. addArc3 out (a + p) (s + off) epsilon) ss out) acs out)
     = nodes out"
  "gradFunc (fold (\<lambda>a out. fold (\<lambda>s out. addArc3 out (a + p) (s + off) epsilon) ss out) acs out)
     = gradFunc out"
  "inputs (fold (\<lambda>a out. fold (\<lambda>s out. addArc3 out (a + p) (s + off) epsilon) ss out) acs out)
     = inputs out"
  by (induction acs arbitrary: out) (simp_all add: fold_addArc3 epsArc_def)

lemma map_nodes_index:
  "map (\<lambda>n. \<lparr>nstart = (b \<and> isStart g (int n)), naccept = (c \<and> isAccept g (int n))\<rparr>) [0..<numNodes g]
   = map (\<lambda>nd. \<lparr>nstart = (b \<and> nstart nd), naccept = (c \<and> naccept nd)\<rparr>) (nodes g)"
  by (rule nth_equalityI) (simp_all add: numNodes_def isStart_def isAccept_def validNode_def)

lemma concat_loop_shape:
  "off = nodePos gs i \<Longrightarrow>
   nodes (concat_loop gs i off out) = nodes out @ List.concat (map (concatNodes gs) [i..<length gs])
   \<and> arcs (concat_loop gs i off out) = arcs out @ List.concat (map (concatArcs gs) [i..<length gs])
   \<and> gradFunc (concat_loop gs i off out) = gradFunc out
   \<and> inputs (concat_loop gs i off out) = inputs out"
proof (induction gs i off out rule: concat_loop.induct)
  case (1 graphs i nodeOffset out)
  show ?case
  proof (cases "i < length graphs")
    case False
    then show ?thesis by (simp add: concat_loop.simps)
  next
    case True
    define out1 where "out1 = fold (\<lambda>n out. addNode out
                            (i = 0 \<and> isStart (graphs ! i) (int n))
                            (i = length graphs - 1 \<and> isAccept (graphs ! i) (int n)))
                     [0..<numNodes (graphs ! i)] out"
    define out2 where "out2 = fold (\<lambda>a out. addArc out
                            (int nodeOffset + srcNode (graphs ! i) a)
                            (int nodeOffset + dstNode (graphs ! i) a)
                            (ilabel (graphs ! i) a) (olabel (graphs ! i) a) (weight (graphs ! i) a))
                     [0..<numArcs (graphs ! i)] out1"
    define out3 where "out3 = (if i > 0 then
                      (let pGraph = graphs ! (i - 1);
                           pNodeOffset = nodeOffset - numNodes pGraph
                       in fold (\<lambda>a out.
                                  fold (\<lambda>s out. addArc3 out (a + int pNodeOffset)
                                                  (s + int nodeOffset) epsilon)
                                    (start (graphs ! i)) out)
                            (accept pGraph) out2)
                    else out2)"
    have step: "concat_loop graphs i nodeOffset out
                  = concat_loop graphs (i + 1) (nodeOffset + numNodes (graphs ! i)) out3"
      using True by (subst concat_loop.simps) (simp add: Let_def out1_def out2_def out3_def)
    have up: "[i..<length graphs] = i # [Suc i..<length graphs]"
      using True by (simp add: upt_conv_Cons)
    have pos: "nodeOffset + numNodes (graphs ! i) = nodePos graphs (i + 1)"
      using True 1(2) by (simp add: nodePos_Suc)
    have prev: "0 < i \<Longrightarrow> nodeOffset - numNodes (graphs ! (i - 1)) = nodePos graphs (i - 1)"
      using True 1(2) nodePos_Suc[of "i - 1" graphs] by simp
    have IH: "nodes (concat_loop graphs (i + 1) (nodeOffset + numNodes (graphs ! i)) out3)
                = nodes out3 @ List.concat (map (concatNodes graphs) [i + 1..<length graphs])
            \<and> arcs (concat_loop graphs (i + 1) (nodeOffset + numNodes (graphs ! i)) out3)
                = arcs out3 @ List.concat (map (concatArcs graphs) [i + 1..<length graphs])
            \<and> gradFunc (concat_loop graphs (i + 1) (nodeOffset + numNodes (graphs ! i)) out3)
                = gradFunc out3
            \<and> inputs (concat_loop graphs (i + 1) (nodeOffset + numNodes (graphs ! i)) out3)
                = inputs out3"
      using 1(1)[OF True refl refl refl refl] pos
      unfolding out1_def out2_def out3_def by simp
    have n1: "nodes out1 = nodes out @ concatNodes graphs i"
      unfolding out1_def concatNodes_def fold_addNode map_nodes_index ..
    have n3: "nodes out3 = nodes out @ concatNodes graphs i"
      by (simp add: out3_def out2_def n1 Let_def fold_connectors fold_addArc)
    have a3: "arcs out3 = arcs out @ concatArcs graphs i"
      using prev 1(2)
      by (simp add: out3_def out2_def out1_def Let_def fold_connectors fold_addArc fold_addNode
          map_arcs_index concatArcs_def concatConnectors_def connectors_def del: fold_simps)
    have g3: "gradFunc out3 = gradFunc out" "inputs out3 = inputs out"
      by (simp_all add: out3_def out2_def out1_def Let_def fold_connectors fold_addArc fold_addNode)
    show ?thesis
      using IH by (simp add: step up n3 a3 g3)
  qed
qed

lemma shiftArc_0 [simp]: "shiftArc 0 a = a"
  by (simp add: shiftArc_def)

lemma map_shiftArc_0 [simp]: "map (shiftArc 0) xs = xs"
  by (induction xs) simp_all

lemma length_connectors: "length (connectors pg g p off) = numAccept pg * numStart g"
  by (simp add: connectors_def numAccept_def numStart_def length_concat comp_def sum_list_triv)

lemma length_concatConnectors:
  "length (concatConnectors gs i)
     = (if i > 0 then numAccept (gs ! (i - 1)) * numStart (gs ! i) else 0)"
  by (simp add: concatConnectors_def length_connectors)

lemma length_concatArcs:
  "length (concatArcs gs i) = numArcs (gs ! i) + length (concatConnectors gs i)"
  by (simp add: concatArcs_def numArcs_def)

lemma arcPos_Suc': "arcPos gs (Suc i) = arcPos gs i + length (concatArcs gs i)"
  by (simp add: length_concatArcs length_concatConnectors)

lemma arcPos_concat: "length (List.concat (map (concatArcs gs) [0..<i])) = arcPos gs i"
  by (induction i) (simp_all add: length_concatArcs length_concatConnectors)

lemma concat_arcs_split:
  assumes "i < n"
  shows "List.concat (map f [0..<n])
           = List.concat (map f [0..<i]) @ f i @ List.concat (map f [Suc i..<n])"
proof -
  have "[0..<n] = [0..<i] @ i # [Suc i..<n]"
    using assms by (metis less_imp_le_nat upt_add_eq_append upt_conv_Cons le0 le_add_diff_inverse)
  then show ?thesis by simp
qed

lemma concat_graphs_arcs:
  "arcs (concat_graphs gs) = List.concat (map (concatArcs gs) [0..<length gs])"
  using concat_loop_shape[of 0 gs 0 "mkGraph ConcatGrad (map withoutWeights gs)"]
  by (simp add: concat_graphs_def nodePos_def Let_def)

lemma concat_graphs_nodes:
  "gs \<noteq> [] \<Longrightarrow> nodes (concat_graphs gs) = List.concat (map (concatNodes gs) [0..<length gs])"
  using concat_loop_shape[of 0 gs 0 "mkGraph ConcatGrad (map withoutWeights gs)"]
  by (simp add: concat_graphs_def nodePos_def Let_def)

lemma concat_graphs_recorded:
  "gradFunc (concat_graphs gs) = ConcatGrad" "inputs (concat_graphs gs) = map withoutWeights gs"
  using concat_loop_shape[of 0 gs 0 "mkGraph ConcatGrad (map withoutWeights gs)"]
  by (simp_all add: concat_graphs_def nodePos_def Let_def)

lemma concat_graphs_numArcs: "numArcs (concat_graphs gs) = arcPos gs (length gs)"
  by (simp add: numArcs_def concat_graphs_arcs arcPos_concat)

lemma concat_block:
  assumes "i < length gs"
  shows "drop (arcPos gs i) (arcs (concat_graphs gs))
           = map (shiftArc (int (nodePos gs i))) (arcs (gs ! i)) @ concatConnectors gs i
               @ List.concat (map (concatArcs gs) [Suc i..<length gs])"
  using arcPos_concat[of gs i]
  by (simp add: concat_graphs_arcs concat_arcs_split[OF assms] concatArcs_def)

lemma arcPos_mono: "i \<le> j \<Longrightarrow> arcPos gs i \<le> arcPos gs j"
  by (induction j) (auto simp: le_Suc_eq)

section \<open>Claims about concat\<close>

text \<open>
  C1: for a non-empty list \<open>gs\<close>, the nodes of \<open>concat_graphs gs\<close> are the nodes of the
  inputs in order (so node \<open>n\<close> of input \<open>i\<close> gets the index \<open>nodePos gs i + n\<close>), a node
  being start only if it is a start node of the first input and accept only if it is
  an accept node of the last; its arcs are, input by input, the input's arcs with both
  endpoints moved by the offset and labels and weights kept, followed (from the
  second input on) by one epsilon arc from every accept node of the previous input
  to every start node of this one. The concatenation of no graph has one node, start
  and accept, and no arc. For two graphs with one accept node in the first and one
  start node in the second, the result has the nodes of both and, after the arcs of
  both, exactly one connector arc.
\<close>

theorem concat_shape:
  "(gs \<noteq> [] \<longrightarrow>
      nodes (concat_graphs gs) = List.concat (map (concatNodes gs) [0..<length gs])
      \<and> arcs (concat_graphs gs) = List.concat (map (concatArcs gs) [0..<length gs]))
   \<and> nodes (concat_graphs []) = [\<lparr>nstart = True, naccept = True\<rparr>]
   \<and> arcs (concat_graphs []) = []
   \<and> (numAccept g1 = 1 \<and> numStart g2 = 1 \<longrightarrow>
        numNodes (concat2 g1 g2) = numNodes g1 + numNodes g2
        \<and> (\<exists>a s. accept g1 = [a] \<and> start g2 = [s]
              \<and> arcs (concat2 g1 g2)
                  = arcs g1 @ map (shiftArc (int (numNodes g1))) (arcs g2)
                      @ [epsArc a (s + int (numNodes g1))]))"
proof -
  have two: "numAccept g1 = 1 \<and> numStart g2 = 1 \<longrightarrow>
        numNodes (concat2 g1 g2) = numNodes g1 + numNodes g2
        \<and> (\<exists>a s. accept g1 = [a] \<and> start g2 = [s]
              \<and> arcs (concat2 g1 g2)
                  = arcs g1 @ map (shiftArc (int (numNodes g1))) (arcs g2)
                      @ [epsArc a (s + int (numNodes g1))])"
  proof
    assume h: "numAccept g1 = 1 \<and> numStart g2 = 1"
    then obtain a s where as: "accept g1 = [a]" "start g2 = [s]"
      by (auto simp: numAccept_def numStart_def length_Suc_conv)
    have n: "numNodes (concat2 g1 g2) = numNodes g1 + numNodes g2"
      by (simp add: concat2_def numNodes_def concat_graphs_nodes concatNodes_def
          upt_rec[of 0] upt_rec[of 1])
    have "arcs (concat2 g1 g2)
            = arcs g1 @ map (shiftArc (int (numNodes g1))) (arcs g2)
                @ [epsArc a (s + int (numNodes g1))]"
      by (simp add: concat2_def concat_graphs_arcs concatArcs_def concatConnectors_def
          connectors_def nodePos_def as upt_rec[of 0] upt_rec[of 1])
    with n as show "numNodes (concat2 g1 g2) = numNodes g1 + numNodes g2
        \<and> (\<exists>a s. accept g1 = [a] \<and> start g2 = [s]
              \<and> arcs (concat2 g1 g2)
                  = arcs g1 @ map (shiftArc (int (numNodes g1))) (arcs g2)
                      @ [epsArc a (s + int (numNodes g1))])"
      by blast
  qed
  have e: "nodes (concat_graphs []) = [\<lparr>nstart = True, naccept = True\<rparr>]"
      "arcs (concat_graphs []) = []"
    by (simp_all add: concat_graphs_def)
  show ?thesis
    using two e concat_graphs_nodes concat_graphs_arcs by blast
qed

theorem concat_shape_witness:
  "[scalarGraph (Finite 2) True, scalarGraph (Finite 3) True] \<noteq> []
   \<and> numAccept (scalarGraph (Finite 2) True) = 1 \<and> numStart (scalarGraph (Finite 3) True) = 1
   \<and> numNodes (concat2 (scalarGraph (Finite 2) True) (scalarGraph (Finite 3) True)) = 4
   \<and> nodes (concat_graphs [scalarGraph (Finite 2) True, scalarGraph (Finite 3) True])
       = [\<lparr>nstart = True, naccept = False\<rparr>, \<lparr>nstart = False, naccept = False\<rparr>,
          \<lparr>nstart = False, naccept = False\<rparr>, \<lparr>nstart = False, naccept = True\<rparr>]
   \<and> arcs (concat2 (scalarGraph (Finite 2) True) (scalarGraph (Finite 3) True))
       = [scalarArc (Finite 2),
          \<lparr>arc_src = 2, arc_dst = 3, arc_ilabel = 0, arc_olabel = 0, arc_weight = Finite 3\<rparr>,
          epsArc 1 2]"
proof -
  note c = concat_shape[of "[scalarGraph (Finite 2) True, scalarGraph (Finite 3) True]"
      "scalarGraph (Finite 2) True" "scalarGraph (Finite 3) True"]
  have n: "nodes (concat_graphs [scalarGraph (Finite 2) True, scalarGraph (Finite 3) True])
       = [\<lparr>nstart = True, naccept = False\<rparr>, \<lparr>nstart = False, naccept = False\<rparr>,
          \<lparr>nstart = False, naccept = False\<rparr>, \<lparr>nstart = False, naccept = True\<rparr>]"
    using c by (simp add: concatNodes_def scalarGraph_facts twoNodes_def upt_rec[of 0] upt_rec[of 1])
  show ?thesis
    using c n by (simp add: scalarGraph_facts shiftArc_def scalarArc_def)
qed

lemma withoutWeights_counts [simp]:
  "numStart (withoutWeights g) = numStart g" "numAccept (withoutWeights g) = numAccept g"
  by (simp_all add: numStart_def numAccept_def start_def accept_def isStart_def isAccept_def
      validNode_def cong: filter_cong)

lemma arcPos_cong:
  "i \<le> length gs \<Longrightarrow> arcPos (map withoutWeights gs) i = arcPos gs i"
  by (induction i) simp_all

lemma concat_grad_loop_calls:
  "\<forall>j<length ins. arcPos ins j + numArcs (ins ! j) \<le> length ws \<Longrightarrow> off = arcPos ins i \<Longrightarrow>
    concat_grad_loop ins ws i off calls
      = (calls @ map (\<lambda>j. AddGradCall j (take (numArcs (ins ! j)) (drop (arcPos ins j) ws)))
                      (filter (\<lambda>j. calcGrad (ins ! j)) [i..<length ins]), None)"
proof (induction ins ws i off calls rule: concat_grad_loop.induct)
  case (1 ins ws i off calls)
  show ?case
  proof (cases "i < length ins")
    case False
    then show ?thesis by (simp add: concat_grad_loop.simps)
  next
    case True
    define calls' where "calls' = (if calcGrad (ins ! i)
       then calls @ [AddGradCall i (take (numArcs (ins ! i)) (drop off ws))] else calls)"
    define off' where "off' = (if i > 0
            then off + numArcs (ins ! i) + numAccept (ins ! (i - 1)) * numStart (ins ! i)
            else off + numArcs (ins ! i))"
    have sl: "slice ws off (numArcs (ins ! i)) = Inr (take (numArcs (ins ! i)) (drop off ws))"
      using 1(2) True 1(3) by (simp add: slice_def)
    have step: "concat_grad_loop ins ws i off calls = concat_grad_loop ins ws (i + 1) off' calls'"
      using True by (subst concat_grad_loop.simps) (simp add: Let_def sl calls'_def off'_def)
    have o: "off' = arcPos ins (i + 1)"
      using 1(3) by (simp add: off'_def)
    have c: "(if calcGrad (ins ! i)
       then case slice ws off (numArcs (ins ! i)) of Inl x \<Rightarrow> Inl x
            | Inr vs \<Rightarrow> Inr (calls @ [AddGradCall i vs])
       else Inr calls) = Inr calls'"
      by (simp add: sl calls'_def)
    have o': "off' = (if 0 < i then off + numArcs (ins ! i)
                 + numAccept (ins ! (i - 1)) * numStart (ins ! i) else off + numArcs (ins ! i))"
      by (simp add: off'_def)
    have "concat_grad_loop ins ws (i + 1) off' calls'
      = (calls' @ map (\<lambda>j. AddGradCall j (take (numArcs (ins ! j)) (drop (arcPos ins j) ws)))
                      (filter (\<lambda>j. calcGrad (ins ! j)) [i + 1..<length ins]), None)"
      by (rule 1(1)[OF True refl c refl o' 1(2) o])
    then have "concat_grad_loop ins ws i off calls
      = (calls' @ map (\<lambda>j. AddGradCall j (take (numArcs (ins ! j)) (drop (arcPos ins j) ws)))
                      (filter (\<lambda>j. calcGrad (ins ! j)) [i + 1..<length ins]), None)"
      by (simp only: step)
    then show ?thesis
      using True 1(3) by (simp add: upt_conv_Cons calls'_def)
  qed
qed

lemma concat_backwardCalls:
  assumes "numArcs deltas = numArcs (concat_graphs gs)"
  shows "backwardCalls (concat_graphs gs) deltas
    = (map (\<lambda>i. AddGradCall i (take (numArcs (gs ! i)) (drop (arcPos gs i) (weights deltas))))
         (filter (\<lambda>i. calcGrad (inputs (concat_graphs gs) ! i)) [0..<length gs]), None)"
proof -
  let ?ins = "map withoutWeights gs"
  have b: "\<forall>j<length ?ins. arcPos ?ins j + numArcs (?ins ! j) \<le> length (weights deltas)"
  proof (intro allI impI)
    fix j assume j: "j < length ?ins"
    then have "arcPos gs j + numArcs (gs ! j) \<le> arcPos gs (Suc j)" by simp
    also have "\<dots> \<le> arcPos gs (length gs)"
      using j by (intro arcPos_mono) simp
    finally show "arcPos ?ins j + numArcs (?ins ! j) \<le> length (weights deltas)"
      using j assms by (simp add: arcPos_cong concat_graphs_numArcs)
  qed
  have "concat_grad_loop ?ins (weights deltas) 0 0 []
    = ([] @ map (\<lambda>j. AddGradCall j (take (numArcs (?ins ! j)) (drop (arcPos ?ins j) (weights deltas))))
                      (filter (\<lambda>j. calcGrad (?ins ! j)) [0..<length ?ins]), None)"
    by (rule concat_grad_loop_calls[OF b]) simp
  also have "map (\<lambda>j. AddGradCall j (take (numArcs (?ins ! j)) (drop (arcPos ?ins j) (weights deltas))))
                (filter (\<lambda>j. calcGrad (?ins ! j)) [0..<length ?ins])
           = map (\<lambda>i. AddGradCall i (take (numArcs (gs ! i)) (drop (arcPos gs i) (weights deltas))))
                (filter (\<lambda>j. calcGrad (?ins ! j)) [0..<length ?ins])"
    by (auto intro!: map_cong simp: arcPos_cong)
  finally show ?thesis
    by (simp add: backwardCalls_def concat_graphs_recorded concat_gradFunc_def)
qed

lemma concat_inputs_calcGrad:
  "i < length gs \<Longrightarrow> calcGrad (inputs (concat_graphs gs) ! i) = calcGrad (gs ! i)"
  by (simp add: concat_graphs_recorded)

lemma calls_of_target:
  "i < n \<Longrightarrow> filter (\<lambda>c. target c = i) (map (\<lambda>j. AddGradCall j (f j)) (filter P [0..<n]))
     = (if P i then [AddGradCall i (f i)] else [])"
proof (induction n)
  case 0
  then show ?case by simp
next
  case (Suc n)
  show ?case
  proof (cases "i < n")
    case True
    then show ?thesis using Suc.IH by (auto simp: filter_map comp_def)
  next
    case False
    then have e: "i = n" using Suc.prems by simp
    have "filter (\<lambda>c. target c = n) (map (\<lambda>j. AddGradCall j (f j)) (filter P [0..<n])) = []"
      by (auto simp: filter_empty_conv)
    then show ?thesis using e by simp
  qed
qed

text \<open>
  C2, as the code has it: given a deltas graph with one value per arc of
  \<open>concat_graphs gs\<close>, the recorded closure ends without error; it calls \<^verbatim>\<open>addGrad\<close> on
  the recorded inputs whose \<^verbatim>\<open>calcGrad()\<close> holds (the flag of the input graph itself),
  in order. An input \<open>i\<close> whose flag is on gets one call, with the \<open>numArcs (gs ! i)\<close>
  delta values that start at position \<open>arcPos gs i\<close>; an input whose flag is off gets
  no call. The span of input \<open>i\<close> is where the forward construction placed the arcs of
  input \<open>i\<close>, in the same order. The connector arcs made for input \<open>i\<close> occupy the
  positions after them, up to \<open>arcPos gs (Suc i)\<close>, and belong to no span, so no call
  carries a value for them.
\<close>

theorem concat_backward_slices:
  assumes "numArcs deltas = numArcs (concat_graphs gs)"
  shows "backwardCalls (concat_graphs gs) deltas
      = (map (\<lambda>i. AddGradCall i (take (numArcs (gs ! i)) (drop (arcPos gs i) (weights deltas))))
           (filter (\<lambda>i. calcGrad (inputs (concat_graphs gs) ! i)) [0..<length gs]), None)
   \<and> (\<forall>i<length gs. calcGrad (inputs (concat_graphs gs) ! i) = calcGrad (gs ! i))
   \<and> (\<forall>i<length gs. calcGrad (gs ! i) \<longrightarrow>
         filter (\<lambda>c. target c = i) (fst (backwardCalls (concat_graphs gs) deltas))
           = [AddGradCall i (take (numArcs (gs ! i)) (drop (arcPos gs i) (weights deltas)))])
   \<and> (\<forall>i<length gs. \<not> calcGrad (gs ! i) \<longrightarrow>
         filter (\<lambda>c. target c = i) (fst (backwardCalls (concat_graphs gs) deltas)) = [])
   \<and> (\<forall>i<length gs.
         take (numArcs (gs ! i)) (drop (arcPos gs i) (arcs (concat_graphs gs)))
           = map (shiftArc (int (nodePos gs i))) (arcs (gs ! i))
         \<and> take (length (concatConnectors gs i))
              (drop (arcPos gs i + numArcs (gs ! i)) (arcs (concat_graphs gs)))
           = concatConnectors gs i
         \<and> arcPos gs (Suc i) = arcPos gs i + numArcs (gs ! i) + length (concatConnectors gs i))
   \<and> numArcs (concat_graphs gs) = arcPos gs (length gs)"
proof -
  have blocks: "\<forall>i<length gs.
         take (numArcs (gs ! i)) (drop (arcPos gs i) (arcs (concat_graphs gs)))
           = map (shiftArc (int (nodePos gs i))) (arcs (gs ! i))
         \<and> take (length (concatConnectors gs i))
              (drop (arcPos gs i + numArcs (gs ! i)) (arcs (concat_graphs gs)))
           = concatConnectors gs i
         \<and> arcPos gs (Suc i) = arcPos gs i + numArcs (gs ! i) + length (concatConnectors gs i)"
  proof (intro allI impI conjI)
    fix i assume i: "i < length gs"
    show "take (numArcs (gs ! i)) (drop (arcPos gs i) (arcs (concat_graphs gs)))
           = map (shiftArc (int (nodePos gs i))) (arcs (gs ! i))"
      by (simp add: concat_block[OF i] numArcs_def)
    have "drop (arcPos gs i + numArcs (gs ! i)) (arcs (concat_graphs gs))
            = drop (numArcs (gs ! i)) (drop (arcPos gs i) (arcs (concat_graphs gs)))"
      by (simp add: add.commute)
    then show "take (length (concatConnectors gs i))
              (drop (arcPos gs i + numArcs (gs ! i)) (arcs (concat_graphs gs)))
           = concatConnectors gs i"
      by (simp add: concat_block[OF i] numArcs_def)
    show "arcPos gs (Suc i) = arcPos gs i + numArcs (gs ! i) + length (concatConnectors gs i)"
      by (simp add: length_concatConnectors)
  qed
  note calls = concat_backwardCalls[OF assms]
  have on: "\<forall>i<length gs. calcGrad (gs ! i) \<longrightarrow>
         filter (\<lambda>c. target c = i) (fst (backwardCalls (concat_graphs gs) deltas))
           = [AddGradCall i (take (numArcs (gs ! i)) (drop (arcPos gs i) (weights deltas)))]"
    by (simp add: calls calls_of_target concat_inputs_calcGrad)
  have off: "\<forall>i<length gs. \<not> calcGrad (gs ! i) \<longrightarrow>
         filter (\<lambda>c. target c = i) (fst (backwardCalls (concat_graphs gs) deltas)) = []"
    by (simp add: calls calls_of_target concat_inputs_calcGrad)
  show ?thesis
    using calls on off blocks concat_graphs_numArcs concat_inputs_calcGrad
    by blast
qed

theorem concat_backward_slices_witness:
  "numArcs (deltasGraph [Finite 1, Finite 2, Finite 3, Finite 4, Finite 5])
     = numArcs (concat_graphs [scalarGraph (Finite 2) True, scalarGraph (Finite 3) False, scalarGraph (Finite 4) True])
   \<and> backwardCalls (concat_graphs [scalarGraph (Finite 2) True, scalarGraph (Finite 3) False, scalarGraph (Finite 4) True])
        (deltasGraph [Finite 1, Finite 2, Finite 3, Finite 4, Finite 5])
      = ([AddGradCall 0 [Finite 1], AddGradCall 2 [Finite 4]], None)
   \<and> calcGrad (scalarGraph (Finite 4) True)
   \<and> filter (\<lambda>c. target c = 2)
        (fst (backwardCalls (concat_graphs [scalarGraph (Finite 2) True, scalarGraph (Finite 3) False, scalarGraph (Finite 4) True])
           (deltasGraph [Finite 1, Finite 2, Finite 3, Finite 4, Finite 5])))
      = [AddGradCall 2 [Finite 4]]
   \<and> \<not> calcGrad (scalarGraph (Finite 3) False)
   \<and> filter (\<lambda>c. target c = 1)
        (fst (backwardCalls (concat_graphs [scalarGraph (Finite 2) True, scalarGraph (Finite 3) False, scalarGraph (Finite 4) True])
           (deltasGraph [Finite 1, Finite 2, Finite 3, Finite 4, Finite 5])))
      = []"
proof -
  let ?gs = "[scalarGraph (Finite 2) True, scalarGraph (Finite 3) False, scalarGraph (Finite 4) True]"
  let ?d = "deltasGraph [Finite 1, Finite 2, Finite 3, Finite 4, Finite 5]"
  have p: "arcPos ?gs 0 = 0" "arcPos ?gs 1 = 1" "arcPos ?gs 2 = 3" "arcPos ?gs 3 = 5"
    by (simp_all add: eval_nat_numeral scalarGraph_facts)
  have h: "numArcs ?d = numArcs (concat_graphs ?gs)"
    by (simp add: concat_graphs_numArcs deltasGraph_facts scalarGraph_facts)
  have u: "[0..<3] = [0, 1, 2]"
    by (simp add: upt_rec)
  note t = concat_backward_slices[OF h]
  have c: "backwardCalls (concat_graphs ?gs) ?d = ([AddGradCall 0 [Finite 1], AddGradCall 2 [Finite 4]], None)"
    using t by (simp add: u scalarGraph_facts deltasGraph_facts p concat_graphs_recorded)
  show ?thesis
    using h c by (simp add: scalarGraph_facts)
qed

text \<open>
  C2 as stated fails for an input that does not request a gradient: of two scalar
  graphs, the second with its flag off, the arc of the second sits at position 1 of
  the result, and the closure hands the delta value at position 1 to no input.
\<close>

theorem concat_backward_skips_unrequested:
  "numArcs (deltasGraph [Finite 1, Finite 2, Finite 3])
     = numArcs (concat_graphs [scalarGraph (Finite 2) True, scalarGraph (Finite 3) False])
   \<and> arcs (concat_graphs [scalarGraph (Finite 2) True, scalarGraph (Finite 3) False]) ! 1
       = shiftArc 2 (scalarArc (Finite 3))
   \<and> weights (deltasGraph [Finite 1, Finite 2, Finite 3]) ! 1 = Finite 2
   \<and> backwardCalls (concat_graphs [scalarGraph (Finite 2) True, scalarGraph (Finite 3) False])
        (deltasGraph [Finite 1, Finite 2, Finite 3])
      = ([AddGradCall 0 [Finite 1]], None)"
proof -
  let ?gs = "[scalarGraph (Finite 2) True, scalarGraph (Finite 3) False]"
  let ?d = "deltasGraph [Finite 1, Finite 2, Finite 3]"
  have p: "arcPos ?gs 1 = 1" "arcPos ?gs 2 = 3"
    by (simp_all add: eval_nat_numeral scalarGraph_facts)
  have h: "numArcs ?d = numArcs (concat_graphs ?gs)"
    by (simp add: concat_graphs_numArcs deltasGraph_facts scalarGraph_facts p)
  have "drop (arcPos ?gs 1) (arcs (concat_graphs ?gs))
          = map (shiftArc (int (nodePos ?gs 1))) (arcs (?gs ! 1)) @ concatConnectors ?gs 1
               @ List.concat (map (concatArcs ?gs) [Suc 1..<length ?gs])"
    by (rule concat_block) simp
  then have "drop 1 (arcs (concat_graphs ?gs))
          = shiftArc 2 (scalarArc (Finite 3)) # concatConnectors ?gs 1"
    by (simp add: p nodePos_def scalarGraph_facts)
  then have a: "arcs (concat_graphs ?gs) ! 1 = shiftArc 2 (scalarArc (Finite 3))"
    by (rule nth_via_drop)
  have u: "[0..<2] = [0, 1]"
    by (simp add: upt_rec)
  have c: "backwardCalls (concat_graphs ?gs) ?d = ([AddGradCall 0 [Finite 1]], None)"
    using concat_backwardCalls[OF h]
    by (simp add: u scalarGraph_facts deltasGraph_facts concat_graphs_recorded)
  show ?thesis
    using h a c by (simp add: deltasGraph_facts)
qed

section \<open>Claims about the calcGrad checks\<close>

lemma applyCall_length [simp]: "length (applyCall c ins) = length ins"
  by (cases c) simp

lemma applyCalls_length [simp]: "length (applyCalls cs ins) = length ins"
  unfolding applyCalls_def by (induction cs arbitrary: ins) simp_all



lemma negate_fails: "numArcs d \<noteq> 1 \<Longrightarrow> \<exists>e. negate d = Inl e"
  by (simp add: negate_def)











section \<open>Facts about remove\<close>

lemma addArc4_sel [simp]:
  "nodes (addArc4 g s d il ol) = nodes g"
  "arcs (addArc4 g s d il ol) =
     arcs g @ [\<lparr>arc_src = s, arc_dst = d, arc_ilabel = il, arc_olabel = ol, arc_weight = 0\<rparr>]"
  "gradFunc (addArc4 g s d il ol) = gradFunc g"
  "inputs (addArc4 g s d il ol) = inputs g"
  by (simp_all add: addArc4_def)

lemma makeAccept_sel [simp]:
  "arcs (makeAccept g i) = arcs g"
  "gradFunc (makeAccept g i) = gradFunc g"
  "inputs (makeAccept g i) = inputs g"
  "length (nodes (makeAccept g i)) = length (nodes g)"
  by (simp_all add: makeAccept_def)

lemma remove_init_prefix:
  "k \<le> numNodes g \<Longrightarrow>
   fold (\<lambda>n (nodes, graph).
             if remove_keep g il ol n
             then (nodes[n := int (numNodes graph)], addNode graph (isStart g (int n)) False)
             else (nodes, graph))
       [0..<k]
       (replicate (numNodes g) (- 1), mkGraph RemoveGrad [g])
   = (map (\<lambda>n. if n < k \<and> remove_keep g il ol n then int (keptBefore g il ol n) else - 1)
        [0..<numNodes g],
      Graph (keptNodes g il ol k) [] (list_ex calcGrad [g]) None RemoveGrad [g] False False)"
proof (induction k)
  case 0
  show ?case
    by (simp add: mkGraph_def keptNodes_def map_replicate_const)
next
  case (Suc k)
  have eq: "(map (\<lambda>n. if n < k \<and> remove_keep g il ol n then int (keptBefore g il ol n) else - 1)
                [0..<numNodes g])[k := int (keptBefore g il ol k)]
          = map (\<lambda>n. if n < Suc k \<and> remove_keep g il ol n then int (keptBefore g il ol n) else - 1)
                [0..<numNodes g]" if "remove_keep g il ol k"
    using that Suc.prems by (auto intro!: nth_equalityI simp: nth_list_update less_Suc_eq)
  have eq': "map (\<lambda>n. if n < k \<and> remove_keep g il ol n then int (keptBefore g il ol n) else - 1)
                [0..<numNodes g]
          = map (\<lambda>n. if n < Suc k \<and> remove_keep g il ol n then int (keptBefore g il ol n) else - 1)
                [0..<numNodes g]" if "\<not> remove_keep g il ol k"
    using that by (auto simp: less_Suc_eq)
  show ?case
    using Suc eq eq'
    by (auto simp: keptNodes_def keptBefore_def numNodes_def addNode_def)
qed

lemma remove_init_eq:
  "remove_init g il ol
   = (map (\<lambda>n. if remove_keep g il ol n then int (keptBefore g il ol n) else - 1) [0..<numNodes g],
      Graph (keptNodes g il ol (numNodes g)) [] (list_ex calcGrad [g]) None RemoveGrad [g] False False)"
proof -
  have "map (\<lambda>n. if n < numNodes g \<and> remove_keep g il ol n then int (keptBefore g il ol n) else - 1)
          [0..<numNodes g]
        = map (\<lambda>n. if remove_keep g il ol n then int (keptBefore g il ol n) else - 1) [0..<numNodes g]"
    by simp
  then show ?thesis
    unfolding remove_init_def using remove_init_prefix[of "numNodes g" g il ol] by simp
qed

text \<open>A property of the graph under construction that every step of the search keeps.\<close>

lemma explore_fold_invariant:
  assumes "P gr"
    and "\<And>gr a. P gr \<Longrightarrow> a < numArcs g \<Longrightarrow> \<not> label_match g il ol a \<Longrightarrow>
           P (addArc4 gr c (nodeAt ns (dstNode g a)) (ilabel g a) (olabel g a))"
    and "set as \<subseteq> {0..<numArcs g}"
    and "fold (explore g il ol ns c) as (q, r, gr) = (q', r', gr')"
  shows "P gr'"
  using assms(1,3,4)
proof (induction as arbitrary: q r gr)
  case Nil
  then show ?case by simp
next
  case (Cons a as)
  obtain q1 r1 gr1 where s1: "explore g il ol ns c a (q, r, gr) = (q1, r1, gr1)"
    by (metis prod_cases3)
  have "P gr1"
    using s1 Cons.prems(1,2) assms(2)[of gr a]
    by (auto simp: explore_def Let_def split: if_splits)
  then show ?case
    using Cons.IH[of gr1 q1 r1] Cons.prems s1 by simp
qed

lemma bfs_Nil [simp]: "bfs g il ol ns c [] r graph = graph"
  by (subst bfs.simps) simp

lemma bfs_Cons:
  "fold (explore g il ol ns c) (outArcs g nxt)
     (rest, r, if isAccept g nxt then makeAccept graph c else graph) = (q', r', graph')
   \<Longrightarrow> bfs g il ol ns c (nxt # rest) r graph = bfs g il ol ns c q' r' graph'"
  by (subst bfs.simps) (simp add: Let_def)

lemma bfs_invariant:
  "P graph \<Longrightarrow> (\<And>gr. P gr \<Longrightarrow> P (makeAccept gr c)) \<Longrightarrow>
   (\<And>gr a. P gr \<Longrightarrow> a < numArcs g \<Longrightarrow> \<not> label_match g il ol a \<Longrightarrow>
           P (addArc4 gr c (nodeAt ns (dstNode g a)) (ilabel g a) (olabel g a))) \<Longrightarrow>
   P (bfs g il ol ns c q r graph)"
proof (induction g il ol ns c q r graph rule: bfs.induct)
  case (1 g il ol ns c q r graph)
  show ?case
  proof (cases q)
    case Nil
    then show ?thesis using 1(2) by simp
  next
    case (Cons nxt rest)
    define graph1 where "graph1 = (if isAccept g nxt then makeAccept graph c else graph)"
    obtain q' r' graph' where f:
      "fold (explore g il ol ns c) (outArcs g nxt) (rest, r, graph1) = (q', r', graph')"
      by (metis prod_cases3)
    have p1: "P graph1"
      using 1(2) 1(3) by (simp add: graph1_def)
    have "P graph'"
      by (rule explore_fold_invariant[where P = P, OF p1 _ set_outArcs f]) (rule 1(4))
    then have "P (bfs g il ol ns c q' r' graph')"
      using 1(1)[OF Cons graph1_def f[symmetric] refl] 1(3) 1(4) by simp
    then show ?thesis
      using Cons bfs_Cons[OF f[unfolded graph1_def]] by simp
  qed
qed

lemma remove_step_eq:
  "remove_step g il ol ns n graph =
     (if ns ! n \<ge> 0 then bfs g il ol ns (ns ! n) [int n] {int n} graph else graph)"
  by (simp add: remove_step_def Let_def)

lemma remove_eq_fold:
  "remove g il ol =
     fold (remove_step g il ol (fst (remove_init g il ol))) [0..<numNodes g]
       (snd (remove_init g il ol))"
  by (simp add: remove_def split_beta)

lemma remove_invariant:
  assumes "P (snd (remove_init g il ol))"
    and "\<And>gr c. P gr \<Longrightarrow> P (makeAccept gr c)"
    and "\<And>gr c d a. P gr \<Longrightarrow> a < numArcs g \<Longrightarrow> \<not> label_match g il ol a \<Longrightarrow>
           P (addArc4 gr c d (ilabel g a) (olabel g a))"
  shows "P (remove g il ol)"
proof -
  have "P (fold (remove_step g il ol ns) xs gr)" if "P gr" for xs gr ns
    using that
  proof (induction xs arbitrary: gr)
    case Nil
    then show ?case by simp
  next
    case (Cons n xs)
    have "P (bfs g il ol ns (ns ! n) q r gr)" for q r
      by (rule bfs_invariant[where P = P, OF Cons.prems]) (auto intro: assms(2,3))
    then have "P (remove_step g il ol ns n gr)"
      using Cons.prems by (simp add: remove_step_eq)
    then show ?case
      using Cons.IH by simp
  qed
  then show ?thesis
    using assms(1) by (simp add: remove_eq_fold)
qed

lemma remove_init_graph:
  "snd (remove_init g il ol)
     = Graph (keptNodes g il ol (numNodes g)) [] (list_ex calcGrad [g]) None RemoveGrad [g] False False"
  by (simp add: remove_init_eq)

lemma remove_recorded: "gradFunc (remove g il ol) = RemoveGrad \<and> inputs (remove g il ol) = [g]"
  by (rule remove_invariant) (simp_all add: remove_init_graph)

lemma remove_weights: "list_all (\<lambda>a. arc_weight a = 0) (arcs (remove g il ol))"
  by (rule remove_invariant) (simp_all add: remove_init_graph)

lemma remove_labels:
  "list_all (\<lambda>a. \<not> (arc_ilabel a = il \<and> arc_olabel a = ol)) (arcs (remove g il ol))"
  by (rule remove_invariant) (auto simp: remove_init_graph label_match_def)

lemma chainGraph_remove:
  "remove chainGraph epsilon epsilon =
     Graph [\<lparr>nstart = True, naccept = False\<rparr>, \<lparr>nstart = False, naccept = True\<rparr>]
       [\<lparr>arc_src = 0, arc_dst = 1, arc_ilabel = 1, arc_olabel = 1, arc_weight = 0\<rparr>]
       True None RemoveGrad [chainGraph] False False"
  by code_simp

section \<open>Claims about remove\<close>

text \<open>
  C7: the closure recorded on \<open>remove g il ol\<close> is the one that throws: whatever the
  deltas graph, it ends with the error before any \<^verbatim>\<open>addGrad\<close> call, and the backward
  step returns the error with the input list \<open>[g]\<close> as it was, so nothing is accumulated
  into \<open>g\<close>.
\<close>

theorem remove_backward_fails:
  "gradFunc (remove g il ol) = RemoveGrad \<and> inputs (remove g il ol) = [g]
   \<and> backwardCalls (remove g il ol) deltas
       = ([], Some (LogicError ''[gtn::remove] gradient compuation not implemented''))
   \<and> backward (remove g il ol) deltas
       = ([g], Some (LogicError ''[gtn::remove] gradient compuation not implemented''))"
  using remove_recorded[of g il ol] by (simp add: backwardCalls_def backward_def applyCalls_def)

theorem remove_backward_fails_witness:
  "backward (remove chainGraph epsilon epsilon) (deltasGraph [Finite 1])
     = ([chainGraph], Some (LogicError ''[gtn::remove] gradient compuation not implemented''))"
  using remove_backward_fails[of chainGraph epsilon epsilon "deltasGraph [Finite 1]"] by simp

text \<open>
  C10: every arc of \<open>remove g il ol\<close> has weight 0, the arcs copied from \<open>g\<close> included.
\<close>

theorem remove_discards_weights:
  "\<forall>a\<in>set (arcs (remove g il ol)). arc_weight a = 0"
  using remove_weights[of g il ol] by (simp add: list_all_iff)

theorem remove_discards_weights_witness:
  "arcs (remove chainGraph epsilon epsilon) \<noteq> []
   \<and> arc_weight (arcs chainGraph ! 0) = Finite 5
   \<and> arc_weight (hd (arcs (remove chainGraph epsilon epsilon))) = 0"
proof -
  have n: "arcs (remove chainGraph epsilon epsilon) \<noteq> []"
    by (simp add: chainGraph_remove)
  then have "hd (arcs (remove chainGraph epsilon epsilon)) \<in> set (arcs (remove chainGraph epsilon epsilon))"
    by simp
  then have "arc_weight (hd (arcs (remove chainGraph epsilon epsilon))) = 0"
    using remove_discards_weights[of chainGraph epsilon epsilon] by blast
  then show ?thesis
    using n by (simp add: chainGraph_def)
qed

section \<open>The search of remove\<close>

lemma validNode_makeAccept [simp]: "validNode (makeAccept gr c) x = validNode gr x"
  by (simp add: makeAccept_def validNode_def numNodes_def)

lemma validNode_addArc4 [simp]: "validNode (addArc4 gr s d i l) x = validNode gr x"
  by (simp add: validNode_def numNodes_def)

lemma isAccept_makeAccept:
  "isAccept (makeAccept gr c) x \<longleftrightarrow> isAccept gr x \<or> (x = c \<and> validNode gr c)"
  by (auto simp: isAccept_def makeAccept_def validNode_def numNodes_def nth_list_update
      split: if_splits)

lemma isStart_makeAccept [simp]: "isStart (makeAccept gr c) x = isStart gr x"
  by (auto simp: isStart_def makeAccept_def validNode_def numNodes_def nth_list_update
      split: if_splits)

lemma isAccept_addArc4 [simp]: "isAccept (addArc4 gr s d i l) x = isAccept gr x"
  by (simp add: isAccept_def validNode_def numNodes_def)

lemma isStart_addArc4 [simp]: "isStart (addArc4 gr s d i l) x = isStart gr x"
  by (simp add: isStart_def validNode_def numNodes_def)

lemma numNodes_makeAccept [simp]: "numNodes (makeAccept gr c) = numNodes gr"
  by (simp add: numNodes_def)

lemma numNodes_addArc4 [simp]: "numNodes (addArc4 gr s d i l) = numNodes gr"
  by (simp add: numNodes_def)

text \<open>What the loop over the arcs leaving a node does to the queue and the set.\<close>

lemma explore_fold_sets:
  "fold (explore g il ol ns c) as (q, r, gr) = (q', r', gr') \<Longrightarrow>
     r' = r \<union> {dstNode g a | a. a \<in> set as \<and> label_match g il ol a}
     \<and> set q' = set q \<union> (r' - r)
     \<and> (\<forall>x. isAccept gr' x = isAccept gr x)
     \<and> (\<forall>x. validNode gr' x = validNode gr x)"
proof (induction as arbitrary: q r gr)
  case Nil
  then show ?case by simp
next
  case (Cons a as)
  obtain q1 r1 gr1 where s1: "explore g il ol ns c a (q, r, gr) = (q1, r1, gr1)"
    by (metis prod_cases3)
  have one: "r1 = r \<union> {dstNode g b | b. b = a \<and> label_match g il ol b}
     \<and> set q1 = set q \<union> (r1 - r)
     \<and> (\<forall>x. isAccept gr1 x = isAccept gr x)
     \<and> (\<forall>x. validNode gr1 x = validNode gr x)"
    using s1 by (auto simp: explore_def Let_def split: if_splits)
  have rest: "r' = r1 \<union> {dstNode g a | a. a \<in> set as \<and> label_match g il ol a}
     \<and> set q' = set q1 \<union> (r' - r1)
     \<and> (\<forall>x. isAccept gr' x = isAccept gr1 x)
     \<and> (\<forall>x. validNode gr' x = validNode gr1 x)"
    using Cons.IH[of q1 r1 gr1] Cons.prems s1 by simp
  show ?case
    using one rest by auto
qed

lemma matchEdges_succ:
  "matchEdges g il ol `` {x} = {dstNode g a | a. a \<in> set (outArcs g x) \<and> label_match g il ol a}"
  by (auto simp: matchEdges_def outArcs_def)

lemma bfs_accept:
  "set q \<subseteq> r \<Longrightarrow> r \<subseteq> (matchEdges g il ol)\<^sup>* `` {n0} \<Longrightarrow> n0 \<in> r \<Longrightarrow>
   (\<forall>x\<in>r - set q. matchEdges g il ol `` {x} \<subseteq> r) \<Longrightarrow>
   validNode graph c \<Longrightarrow>
   (A0 \<or> (\<exists>x\<in>r - set q. isAccept g x) \<longrightarrow> isAccept graph c) \<Longrightarrow>
   (isAccept graph c \<longrightarrow> A0 \<or> (\<exists>x\<in>(matchEdges g il ol)\<^sup>* `` {n0}. isAccept g x)) \<Longrightarrow>
   isAccept (bfs g il ol ns c q r graph) c
     \<longleftrightarrow> A0 \<or> (\<exists>x\<in>(matchEdges g il ol)\<^sup>* `` {n0}. isAccept g x)"
proof (induction g il ol ns c q r graph rule: bfs.induct)
  case (1 g il ol ns c q r graph)
  let ?E = "matchEdges g il ol"
  let ?R = "?E\<^sup>* `` {n0}"
  show ?case
  proof (cases q)
    case Nil
    have "?R \<subseteq> r"
    proof
      fix x assume "x \<in> ?R"
      then have "(n0, x) \<in> ?E\<^sup>*" by simp
      then show "x \<in> r"
      proof (induction rule: rtrancl_induct)
        case base
        then show ?case using 1(4) by simp
      next
        case (step y z)
        then show ?case using 1(5) Nil by auto
      qed
    qed
    then have "r = ?R" using 1(3) by auto
    then show ?thesis using Nil 1(7) 1(8) by auto
  next
    case (Cons nxt rest)
    define graph1 where "graph1 = (if isAccept g nxt then makeAccept graph c else graph)"
    obtain q' r' graph' where f:
      "fold (explore g il ol ns c) (outArcs g nxt) (rest, r, graph1) = (q', r', graph')"
      by (metis prod_cases3)
    note s = explore_fold_sets[OF f]
    have r': "r' = r \<union> ?E `` {nxt}"
      using s by (simp add: matchEdges_succ)
    have q': "set q' = set rest \<union> (r' - r)"
      using s by simp
    have nxt: "nxt \<in> r" "nxt \<in> ?R"
      using 1(2) 1(3) Cons by auto
    have acc': "isAccept graph' c \<longleftrightarrow> isAccept graph c \<or> isAccept g nxt"
      using s 1(6) by (auto simp: graph1_def isAccept_makeAccept)
    have v': "validNode graph' c"
      using s 1(6) by (simp add: graph1_def)
    have a: "set q' \<subseteq> r'"
      using q' r' 1(2) Cons by auto
    have b: "r' \<subseteq> ?R"
    proof -
      have "?E `` {nxt} \<subseteq> ?R"
        using nxt(2) by (auto intro: rtrancl_into_rtrancl)
      then show ?thesis using r' 1(3) by auto
    qed
    have c: "n0 \<in> r'" using r' 1(4) by simp
    have d: "\<forall>x\<in>r' - set q'. ?E `` {x} \<subseteq> r'"
    proof
      fix x assume x: "x \<in> r' - set q'"
      then have xr: "x \<in> r" "x \<notin> set rest" using q' by auto
      show "?E `` {x} \<subseteq> r'"
      proof (cases "x = nxt")
        case True
        then show ?thesis using r' by simp
      next
        case False
        then have "x \<in> r - set q" using xr Cons by simp
        then show ?thesis using 1(5) r' by blast
      qed
    qed
    have sub: "r' - set q' \<subseteq> (r - set q) \<union> {nxt}"
      using q' Cons by auto
    have e: "A0 \<or> (\<exists>x\<in>r' - set q'. isAccept g x) \<longrightarrow> isAccept graph' c"
      using 1(7) acc' sub by blast
    have f': "isAccept graph' c \<longrightarrow> A0 \<or> (\<exists>x\<in>?R. isAccept g x)"
      using 1(8) acc' nxt(2) by blast
    have "isAccept (bfs g il ol ns c q' r' graph') c \<longleftrightarrow> A0 \<or> (\<exists>x\<in>?R. isAccept g x)"
      by (rule 1(1)[OF Cons graph1_def f[symmetric] refl a b c d v' e f'])
    then show ?thesis
      using Cons bfs_Cons[OF f[unfolded graph1_def]] by simp
  qed
qed

lemma bfs_frame:
  "numNodes (bfs g il ol ns c q r graph) = numNodes graph
   \<and> (\<forall>x. x \<noteq> c \<longrightarrow> isAccept (bfs g il ol ns c q r graph) x = isAccept graph x)
   \<and> (\<forall>x. isStart (bfs g il ol ns c q r graph) x = isStart graph x)"
  by (rule bfs_invariant[where P = "\<lambda>gr. numNodes gr = numNodes graph
        \<and> (\<forall>x. x \<noteq> c \<longrightarrow> isAccept gr x = isAccept graph x)
        \<and> (\<forall>x. isStart gr x = isStart graph x)"])
    (auto simp: isAccept_makeAccept)

lemma keptBefore_less:
  assumes "n < m" "remove_keep g il ol n"
  shows "keptBefore g il ol n < keptBefore g il ol m"
proof -
  have "[0..<m] = [0..<n] @ n # [Suc n..<m]"
    using assms(1) by (metis less_imp_le_nat upt_add_eq_append upt_conv_Cons le0 le_add_diff_inverse)
  then show ?thesis
    using assms(2) by (simp add: keptBefore_def)
qed

lemma keptBefore_inj:
  assumes "remove_keep g il ol n" "remove_keep g il ol m"
    "keptBefore g il ol n = keptBefore g il ol m"
  shows "n = m"
  using assms keptBefore_less[of n m g il ol] keptBefore_less[of m n g il ol]
  by (cases n m rule: linorder_cases) auto

lemma remove_nodes_nth:
  "n < numNodes g \<Longrightarrow>
     remove_nodes g il ol ! n = (if remove_keep g il ol n then int (keptBefore g il ol n) else - 1)"
  by (simp add: remove_nodes_def remove_init_eq)

lemma remove_nodes_length [simp]: "length (remove_nodes g il ol) = numNodes g"
  by (simp add: remove_nodes_def remove_init_eq)

lemma remove_init_numNodes:
  "numNodes (snd (remove_init g il ol)) = keptBefore g il ol (numNodes g)"
  by (simp add: remove_init_graph numNodes_def keptNodes_def keptBefore_def)

lemma remove_init_isAccept: "\<not> isAccept (snd (remove_init g il ol)) x"
  by (simp add: remove_init_graph isAccept_def validNode_def numNodes_def keptNodes_def)

lemma remove_loop_accept:
  "k \<le> numNodes g \<Longrightarrow>
     numNodes (fold (remove_step g il ol (remove_nodes g il ol)) [0..<k] (snd (remove_init g il ol)))
       = keptBefore g il ol (numNodes g)
     \<and> (\<forall>n<numNodes g. remove_keep g il ol n \<longrightarrow>
          (isAccept (fold (remove_step g il ol (remove_nodes g il ol)) [0..<k]
                       (snd (remove_init g il ol)))
             (remove_nodes g il ol ! n)
           \<longleftrightarrow> n < k \<and> (\<exists>x\<in>(matchEdges g il ol)\<^sup>* `` {int n}. isAccept g x)))"
proof (induction k)
  case 0
  show ?case
    by (simp add: remove_init_numNodes remove_init_isAccept)
next
  case (Suc k)
  let ?ns = "remove_nodes g il ol"
  define grk where "grk = fold (remove_step g il ol ?ns) [0..<k] (snd (remove_init g il ol))"
  have k: "k < numNodes g" using Suc.prems by simp
  have IH: "numNodes grk = keptBefore g il ol (numNodes g)"
    "\<And>n. n < numNodes g \<Longrightarrow> remove_keep g il ol n \<Longrightarrow>
       (isAccept grk (?ns ! n) \<longleftrightarrow> n < k \<and> (\<exists>x\<in>(matchEdges g il ol)\<^sup>* `` {int n}. isAccept g x))"
    using Suc.IH k by (simp_all add: grk_def)
  have step: "fold (remove_step g il ol ?ns) [0..<Suc k] (snd (remove_init g il ol))
              = remove_step g il ol ?ns k grk"
    by (simp add: grk_def)
  show ?case
  proof (cases "remove_keep g il ol k")
    case False
    then have "remove_step g il ol ?ns k grk = grk"
      using k by (simp add: remove_step_eq remove_nodes_nth)
    moreover have "n < Suc k \<longleftrightarrow> n < k" if "remove_keep g il ol n" for n
      using that False by (cases "n = k") auto
    ultimately show ?thesis
      unfolding step using IH by auto
  next
    case True
    define c where "c = ?ns ! k"
    have c: "c = int (keptBefore g il ol k)"
      using True k by (simp add: c_def remove_nodes_nth)
    define gr' where "gr' = bfs g il ol ?ns c [int k] {int k} grk"
    have st: "remove_step g il ol ?ns k grk = gr'"
      using c by (simp add: remove_step_eq gr'_def c_def[symmetric])
    have v: "validNode grk c"
      using c IH(1) keptBefore_less[OF k True] by (simp add: validNode_def)
    have nacc: "\<not> isAccept grk c"
      using IH(2)[OF k True] by (simp add: c_def)
    have acc: "isAccept gr' c \<longleftrightarrow> False \<or> (\<exists>x\<in>(matchEdges g il ol)\<^sup>* `` {int k}. isAccept g x)"
      unfolding gr'_def
      by (rule bfs_accept) (use v nacc in auto)
    note fr = bfs_frame[of g il ol ?ns c "[int k]" "{int k}" grk, folded gr'_def]
    have other: "isAccept gr' (?ns ! n) = isAccept grk (?ns ! n)"
      if "n < numNodes g" "remove_keep g il ol n" "n \<noteq> k" for n
    proof -
      have "?ns ! n \<noteq> c"
        using that True c keptBefore_inj[of g il ol n k] by (auto simp: remove_nodes_nth)
      then show ?thesis using fr by simp
    qed
    have "isAccept gr' (?ns ! n)
           \<longleftrightarrow> n < Suc k \<and> (\<exists>x\<in>(matchEdges g il ol)\<^sup>* `` {int n}. isAccept g x)"
      if n: "n < numNodes g" "remove_keep g il ol n" for n
    proof (cases "n = k")
      case True
      then show ?thesis using acc by (simp add: c_def)
    next
      case False
      then show ?thesis using other[OF n False] IH(2)[OF n] by auto
    qed
    then show ?thesis
      unfolding step st using fr IH(1) by simp
  qed
qed

lemma remove_keep_iff:
  "remove_keep g il ol n \<longleftrightarrow>
     isStart g (int n)
     \<or> (\<exists>a<numArcs g. dstNode g a = int n \<and> \<not> (ilabel g a = il \<and> olabel g a = ol))"
  by (auto simp: remove_keep_def list_all_iff inArcs_def label_match_def)

lemma remove_nodes_kept:
  "n < numNodes g \<Longrightarrow> 0 \<le> remove_nodes g il ol ! n \<longleftrightarrow> remove_keep g il ol n"
  by (simp add: remove_nodes_nth)

lemma remove_eq_loop:
  "remove g il ol =
     fold (remove_step g il ol (remove_nodes g il ol)) [0..<numNodes g] (snd (remove_init g il ol))"
  by (simp add: remove_eq_fold remove_nodes_def)

text \<open>
  C4: \<open>remove g il ol\<close> creates a node for the node \<open>n\<close> of \<open>g\<close> exactly when \<open>n\<close> is a
  start node or some arc entering \<open>n\<close> is not labelled \<open>il\<close>/\<open>ol\<close>; the result has one
  node for each of them, distinct nodes for distinct kept nodes. No arc of the result
  is labelled \<open>il\<close>/\<open>ol\<close>. The node made for a kept node \<open>n\<close> is an accept node exactly
  when some node that \<open>n\<close> reaches in \<open>g\<close> along arcs labelled \<open>il\<close>/\<open>ol\<close> (\<open>n\<close> itself
  included) is an accept node of \<open>g\<close>.
\<close>

theorem remove_shape:
  "(\<forall>n<numNodes g.
      0 \<le> remove_nodes g il ol ! n \<longleftrightarrow>
        isStart g (int n)
        \<or> (\<exists>a<numArcs g. dstNode g a = int n \<and> \<not> (ilabel g a = il \<and> olabel g a = ol)))
   \<and> numNodes (remove g il ol)
       = length (filter (\<lambda>n. 0 \<le> remove_nodes g il ol ! n) [0..<numNodes g])
   \<and> (\<forall>n<numNodes g. \<forall>m<numNodes g.
         0 \<le> remove_nodes g il ol ! n \<and> remove_nodes g il ol ! n = remove_nodes g il ol ! m
         \<longrightarrow> n = m)
   \<and> (\<forall>n<numNodes g. 0 \<le> remove_nodes g il ol ! n \<longrightarrow>
         validNode (remove g il ol) (remove_nodes g il ol ! n))
   \<and> (\<forall>a\<in>set (arcs (remove g il ol)). \<not> (arc_ilabel a = il \<and> arc_olabel a = ol))
   \<and> (\<forall>n<numNodes g. 0 \<le> remove_nodes g il ol ! n \<longrightarrow>
         (isAccept (remove g il ol) (remove_nodes g il ol ! n)
          \<longleftrightarrow> (\<exists>m. (int n, m) \<in> (matchEdges g il ol)\<^sup>* \<and> isAccept g m)))"
proof -
  note loop = remove_loop_accept[of "numNodes g" g il ol, OF le_refl, folded remove_eq_loop]
  have p1: "\<forall>n<numNodes g.
      0 \<le> remove_nodes g il ol ! n \<longleftrightarrow>
        isStart g (int n)
        \<or> (\<exists>a<numArcs g. dstNode g a = int n \<and> \<not> (ilabel g a = il \<and> olabel g a = ol))"
    using remove_keep_iff[of g il ol] by (simp add: remove_nodes_kept)
  have "filter (\<lambda>n. 0 \<le> remove_nodes g il ol ! n) [0..<numNodes g]
          = filter (remove_keep g il ol) [0..<numNodes g]"
    by (rule filter_cong) (simp_all add: remove_nodes_kept)
  then have p2: "numNodes (remove g il ol)
       = length (filter (\<lambda>n. 0 \<le> remove_nodes g il ol ! n) [0..<numNodes g])"
    using loop by (simp add: keptBefore_def)
  have p3: "\<forall>n<numNodes g. \<forall>m<numNodes g.
         0 \<le> remove_nodes g il ol ! n \<and> remove_nodes g il ol ! n = remove_nodes g il ol ! m
         \<longrightarrow> n = m"
    using keptBefore_inj[of g il ol]
    by (auto simp: remove_nodes_nth split: if_splits)
  have p4: "\<forall>n<numNodes g. 0 \<le> remove_nodes g il ol ! n \<longrightarrow>
         validNode (remove g il ol) (remove_nodes g il ol ! n)"
    using loop keptBefore_less[of _ "numNodes g" g il ol]
    by (auto simp: remove_nodes_nth validNode_def split: if_splits)
  have p5: "\<forall>a\<in>set (arcs (remove g il ol)). \<not> (arc_ilabel a = il \<and> arc_olabel a = ol)"
    using remove_labels[of il ol g] by (simp add: list_all_iff)
  have p6: "\<forall>n<numNodes g. 0 \<le> remove_nodes g il ol ! n \<longrightarrow>
         (isAccept (remove g il ol) (remove_nodes g il ol ! n)
          \<longleftrightarrow> (\<exists>m. (int n, m) \<in> (matchEdges g il ol)\<^sup>* \<and> isAccept g m))"
    using loop by (auto simp: remove_nodes_kept)
  show ?thesis
    using p1 p2 p3 p4 p5 p6 by blast
qed

theorem remove_shape_witness:
  "numNodes chainGraph = 3
   \<and> remove_nodes chainGraph epsilon epsilon = [0, 1, - 1]
   \<and> numNodes (remove chainGraph epsilon epsilon) = 2
   \<and> (1, 2) \<in> (matchEdges chainGraph epsilon epsilon)\<^sup>* \<and> isAccept chainGraph 2
   \<and> isAccept (remove chainGraph epsilon epsilon) 1
   \<and> \<not> isAccept (remove chainGraph epsilon epsilon) 0"
proof -
  have n: "numNodes chainGraph = 3"
    by (simp add: chainGraph_def numNodes_def)
  have ns: "remove_nodes chainGraph epsilon epsilon = [0, 1, - 1]"
    unfolding remove_nodes_def by code_simp
  have e: "(1, 2) \<in> matchEdges chainGraph epsilon epsilon"
    unfolding matchEdges_def
    by (simp add: chainGraph_def srcNode_def dstNode_def numArcs_def label_match_def ilabel_def
        olabel_def) (rule exI[of _ 1], simp)
  have a: "isAccept chainGraph 2"
    by (simp add: chainGraph_def isAccept_def validNode_def numNodes_def)
  note r = remove_shape[of chainGraph epsilon epsilon]
  have u: "[0..<3] = [0, 1, 2]"
    by (simp add: upt_rec)
  have "numNodes (remove chainGraph epsilon epsilon)
       = length (filter (\<lambda>n. 0 \<le> remove_nodes chainGraph epsilon epsilon ! n)
           [0..<numNodes chainGraph])"
    using r by blast
  then have k: "numNodes (remove chainGraph epsilon epsilon) = 2"
    by (simp add: n ns u)
  have one: "isAccept (remove chainGraph epsilon epsilon) 1"
  proof -
    have "(1::nat) < numNodes chainGraph" "0 \<le> remove_nodes chainGraph epsilon epsilon ! 1"
      by (simp_all add: n ns)
    moreover have "\<exists>m. (int 1, m) \<in> (matchEdges chainGraph epsilon epsilon)\<^sup>* \<and> isAccept chainGraph m"
      using e a by auto
    ultimately have "isAccept (remove chainGraph epsilon epsilon)
                       (remove_nodes chainGraph epsilon epsilon ! 1)"
      using r by blast
    then show ?thesis by (simp add: ns)
  qed
  have zero: "\<not> isAccept (remove chainGraph epsilon epsilon) 0"
    by (simp add: chainGraph_remove isAccept_def)
  show ?thesis
    using n ns k e a one zero by auto
qed

section \<open>Well-formed graphs\<close>

text \<open>
  The combinators keep the invariant of the data model: on graphs whose arcs have
  valid endpoints, \<open>remove\<close>, \<open>closure\<close> and \<open>concat_graphs\<close> call \<^verbatim>\<open>addArc\<close> and
  \<^verbatim>\<open>makeAccept\<close> with valid node indices only, and \<open>remove\<close> never reads \<^verbatim>\<open>nodes[dn]\<close>
  at a node that was not kept.
\<close>

lemma wf_graph_arcsWithin: "wf_graph gr \<longleftrightarrow> arcsWithin (numNodes gr) gr"
  by (simp add: wf_graph_def arcsWithin_def validNode_def)

lemma remove_nodeAt_valid:
  assumes "wf_graph g" "a < numArcs g" "\<not> label_match g il ol a"
  shows "0 \<le> nodeAt (remove_nodes g il ol) (dstNode g a)
         \<and> nodeAt (remove_nodes g il ol) (dstNode g a) < int (keptBefore g il ol (numNodes g))"
proof -
  have v: "validNode g (dstNode g a)"
    using assms(1,2) by (auto simp: wf_graph_def list_all_length dstNode_def numArcs_def)
  define n where "n = nat (dstNode g a)"
  have n: "n < numNodes g" "int n = dstNode g a"
    using v by (auto simp: n_def validNode_def)
  have "a \<in> set (inArcs g (int n))"
    using assms(2) n by (simp add: inArcs_def)
  then have k: "remove_keep g il ol n"
    using assms(3) by (auto simp: remove_keep_def list_all_iff)
  have "nodeAt (remove_nodes g il ol) (dstNode g a) = int (keptBefore g il ol n)"
    using n k v by (simp add: nodeAt_def validNode_def remove_nodes_nth n_def)
  then show ?thesis
    using keptBefore_less[OF n(1) k] by simp
qed

lemma remove_wf:
  assumes "wf_graph g"
  shows "wf_graph (remove g il ol)"
proof -
  let ?K = "keptBefore g il ol (numNodes g)"
  let ?ns = "remove_nodes g il ol"
  have init: "arcsWithin ?K (snd (remove_init g il ol))"
    by (simp add: arcsWithin_def remove_init_numNodes) (simp add: remove_init_graph)
  have step: "arcsWithin ?K (remove_step g il ol ?ns n gr)"
    if "arcsWithin ?K gr" "n < numNodes g" for n gr
  proof (cases "0 \<le> ?ns ! n")
    case False
    then show ?thesis using that by (simp add: remove_step_eq)
  next
    case True
    then have k: "remove_keep g il ol n"
      using that(2) by (simp add: remove_nodes_kept)
    have c: "0 \<le> ?ns ! n" "?ns ! n < int ?K"
      using k that(2) keptBefore_less[OF that(2) k] by (simp_all add: remove_nodes_nth)
    have "arcsWithin ?K (bfs g il ol ?ns (?ns ! n) [int n] {int n} gr)"
    proof (rule bfs_invariant[where P = "arcsWithin ?K", OF that(1)], goal_cases)
      case (1 gr)
      then show ?case by (simp add: arcsWithin_def)
    next
      case (2 gr a)
      then show ?case
        using c remove_nodeAt_valid[OF assms 2(2,3)] by (simp add: arcsWithin_def)
    qed
    then show ?thesis using True by (simp add: remove_step_eq)
  qed
  have "arcsWithin ?K (fold (remove_step g il ol ?ns) xs gr)"
    if "arcsWithin ?K gr" "set xs \<subseteq> {0..<numNodes g}" for xs gr
    using that by (induction xs arbitrary: gr) (auto intro: step)
  then have "arcsWithin ?K (remove g il ol)"
    using init by (simp add: remove_eq_loop)
  then show ?thesis
    by (simp add: wf_graph_arcsWithin arcsWithin_def)
qed

lemma start_valid: "s \<in> set (start g) \<Longrightarrow> 0 \<le> s \<and> s < int (numNodes g)"
  by (auto simp: start_def)

lemma accept_valid: "s \<in> set (accept g) \<Longrightarrow> 0 \<le> s \<and> s < int (numNodes g)"
  by (auto simp: accept_def)

lemma closure_wf:
  assumes "wf_graph g"
  shows "wf_graph (closure g)"
proof -
  have n: "numNodes (closure g) = Suc (numNodes g)"
    by (simp add: numNodes_def closure_nodes)
  show ?thesis
    using assms start_valid[of _ g] accept_valid[of _ g]
    by (auto simp: wf_graph_def validNode_def n closure_arcs list_all_iff shiftArc_def epsArc_def)
qed

lemma nodePos_mono: "i \<le> j \<Longrightarrow> j \<le> length gs \<Longrightarrow> nodePos gs i \<le> nodePos gs j"
proof (induction j)
  case 0
  then show ?case by simp
next
  case (Suc j)
  then show ?case
    by (cases "i = Suc j") (auto simp: nodePos_Suc)
qed

lemma concat_graphs_numNodes:
  "gs \<noteq> [] \<Longrightarrow> numNodes (concat_graphs gs) = nodePos gs (length gs)"
proof -
  assume ne: "gs \<noteq> []"
  have "length (List.concat (map (concatNodes gs) [0..<i])) = nodePos gs i" if "i \<le> length gs" for i
    using that
  proof (induction i)
    case 0
    then show ?case by (simp add: nodePos_def)
  next
    case (Suc i)
    then show ?case by (simp add: nodePos_Suc concatNodes_def numNodes_def)
  qed
  then show ?thesis
    using ne by (simp add: numNodes_def concat_graphs_nodes)
qed

lemma concat_wf:
  assumes "\<forall>g\<in>set gs. wf_graph g"
  shows "wf_graph (concat_graphs gs)"
proof (cases "gs = []")
  case True
  then show ?thesis by (simp add: wf_graph_def concat_graphs_def)
next
  case False
  let ?N = "nodePos gs (length gs)"
  have within: "0 \<le> arc_src a \<and> arc_src a < int ?N \<and> 0 \<le> arc_dst a \<and> arc_dst a < int ?N"
    if i: "i < length gs" and a: "a \<in> set (concatArcs gs i)" for i a
  proof -
    have up: "nodePos gs i + numNodes (gs ! i) \<le> ?N"
      using nodePos_mono[of "Suc i" "length gs" gs] i by (simp add: nodePos_Suc)
    have wfi: "wf_graph (gs ! i)" using assms i by simp
    consider (own) "a \<in> shiftArc (int (nodePos gs i)) ` set (arcs (gs ! i))"
      | (conn) "a \<in> set (concatConnectors gs i)"
      using a by (auto simp: concatArcs_def)
    then show ?thesis
    proof cases
      case own
      then show ?thesis
        using wfi up by (auto simp: wf_graph_def list_all_iff validNode_def shiftArc_def)
    next
      case conn
      then have pos: "0 < i" by (auto simp: concatConnectors_def split: if_splits)
      then have prev: "nodePos gs i = nodePos gs (i - 1) + numNodes (gs ! (i - 1))"
        using i nodePos_Suc[of "i - 1" gs] by simp
      from conn pos obtain x y where xy: "x \<in> set (accept (gs ! (i - 1)))" "y \<in> set (start (gs ! i))"
        "a = epsArc (x + int (nodePos gs (i - 1))) (y + int (nodePos gs i))"
        by (auto simp: concatConnectors_def connectors_def)
      show ?thesis
        using xy accept_valid[OF xy(1)] start_valid[OF xy(2)] up prev
        by (simp add: epsArc_def)
    qed
  qed
  have "\<forall>a\<in>set (arcs (concat_graphs gs)).
          0 \<le> arc_src a \<and> arc_src a < int ?N \<and> 0 \<le> arc_dst a \<and> arc_dst a < int ?N"
    using within by (auto simp: concat_graphs_arcs)
  then show ?thesis
    using False by (simp add: wf_graph_def validNode_def concat_graphs_numNodes list_all_iff)
qed

end
